theory Spec2Isabelle
  imports Complex_Main "HOL-Library.AList" "HOL-Library.Multiset" "HOL-Library.Product_Lexorder"
begin

section \<open>JavaScript numbers\<close>

text \<open>
  A JavaScript number is an IEEE 754 double. A finite number is kept as the real it
  denotes, and every addition and subtraction of the source is the exact operation followed
  by \<open>fl\<close>, rounding to the nearest double with ties to the even significand: 53 bits of
  precision, with the spacing \<open>2 ^ -1074\<close> of the subnormal numbers as the finest. A decimal
  literal \<open>d\<close> of a program denotes \<open>fl d\<close>. Comparisons, \<open>Math.min\<close> and \<open>Math.max\<close> are
  exact, and so is the sign of a rounded difference, which is all a sort comparator uses.
  NaN and the infinities are outside the model: the amounts of RAM that the game reports
  and that modules request are finite, and no sum or difference below leaves the range of
  the doubles for such amounts.
\<close>

fun bitLength :: "nat \<Rightarrow> nat" where
  "bitLength n = (if n = 0 then 0 else Suc (bitLength (n div 2)))"

declare bitLength.simps [simp del]

text \<open>The exponent \<open>e\<close> with \<open>2 ^ e \<le> |x| < 2 ^ (e + 1)\<close>, for \<open>x \<noteq> 0\<close>.\<close>

definition binade :: "real \<Rightarrow> int" where
  "binade x =
     (if 1 \<le> \<bar>x\<bar> then int (bitLength (nat \<lfloor>\<bar>x\<bar>\<rfloor>)) - 1
      else - int (bitLength (nat (\<lceil>1 / \<bar>x\<bar>\<rceil> - 1))))"

definition pow2 :: "int \<Rightarrow> real" where
  "pow2 e = (if 0 \<le> e then 2 ^ nat e else 1 / 2 ^ nat (- e))"

definition roundEven :: "real \<Rightarrow> int" where
  "roundEven y =
     (let f = \<lfloor>y\<rfloor>; r = y - of_int f
      in if r < 1 / 2 then f else if 1 / 2 < r then f + 1 else if even f then f else f + 1)"

definition fl :: "real \<Rightarrow> real" where
  "fl x =
     (if x = 0 then 0
      else let e = max (binade x - 52) (- 1074)
           in of_int (roundEven (x / pow2 e)) * pow2 e)"

section \<open>Resource allocator (core/resource-allocator.ts)\<close>

text \<open>
  Arrays are lists. The working pool is an array of server objects
  that \<open>allocateToModule\<close> mutates through a sorted shallow copy; the model keeps the
  pool as a list and lets the sorted copy hold indices into it, so that a write through
  the copy is a write to the pool. \<open>Record<string, number>\<close> is a plain object, kept as the
  association list of its own properties in the order in which they were added.
  JavaScript lists the keys that are array indices before the others; the one place that
  goes through the keys is the rollback, which touches another server for each key, so
  that the order does not matter to what it leaves.
\<close>

record ServerResource =
  hostname :: string
  totalRam :: real
  usedRam :: real
  availableRam :: real
  isHome :: bool
  isPurchased :: bool

record ResourceRequest =
  moduleName :: string
  priority :: real
  minRam :: real
  maxRam :: real
  preferredServers :: "string list option"

record ResourceAllocation =
  allocModuleName :: string
  allocatedRam :: real
  serverAllocations :: "(string \<times> real) list"

subsection \<open>Array.prototype.sort with a comparator\<close>

text \<open>
  \<open>xs.sort(cmp)\<close> is stable; \<open>cmp a b < 0\<close> puts \<open>a\<close> first, \<open>cmp a b > 0\<close> puts
  \<open>b\<close> first. For the comparators of this file (each a lexicographic order on keys) the
  result of a stable sort is unique, and stable insertion computes it.
\<close>

fun insertBy :: "('a \<Rightarrow> 'a \<Rightarrow> real) \<Rightarrow> 'a \<Rightarrow> 'a list \<Rightarrow> 'a list" where
  "insertBy cmp x [] = [x]"
| "insertBy cmp x (y # ys) = (if cmp x y \<le> 0 then x # y # ys else y # insertBy cmp x ys)"

definition sortBy :: "('a \<Rightarrow> 'a \<Rightarrow> real) \<Rightarrow> 'a list \<Rightarrow> 'a list" where
  "sortBy cmp xs = foldr (insertBy cmp) xs []"

subsection \<open>allocateToModule\<close>

definition cmpDefault :: "ServerResource \<Rightarrow> ServerResource \<Rightarrow> real" where
  "cmpDefault a b =
     (if isHome a \<noteq> isHome b then (if isHome a then 1 else -1)
      else availableRam b - availableRam a)"

definition cmpPreferred :: "string list \<Rightarrow> ServerResource \<Rightarrow> ServerResource \<Rightarrow> real" where
  "cmpPreferred prefs a b =
     (let aPreferred = (if hostname a \<in> set prefs then 1 else 0 :: real);
          bPreferred = (if hostname b \<in> set prefs then 1 else 0 :: real)
      in if aPreferred \<noteq> bPreferred then bPreferred - aPreferred
         else if isHome a \<noteq> isHome b then (if isHome a then 1 else -1)
         else availableRam b - availableRam a)"

definition poolComparator :: "ResourceRequest \<Rightarrow> ServerResource \<Rightarrow> ServerResource \<Rightarrow> real" where
  "poolComparator request =
     (case preferredServers request of
        Some prefs \<Rightarrow> (if length prefs > 0 then cmpPreferred prefs else cmpDefault)
      | None \<Rightarrow> cmpDefault)"

text \<open>
  The sorted shallow copy, as the positions of its elements in the working pool. They are
  a rearrangement of \<open>[0 ..< length remainingPool]\<close>, so every \<open>pool ! i\<close> below is in range.
\<close>

definition sortedPool :: "ResourceRequest \<Rightarrow> ServerResource list \<Rightarrow> nat list" where
  "sortedPool request remainingPool =
     sortBy (\<lambda>i j. poolComparator request (remainingPool ! i) (remainingPool ! j))
       [0 ..< length remainingPool]"

text \<open>
  \<open>serverAllocations[hostname] = toAllocate\<close> on an object that started as \<open>{}\<close>: an own
  property is made or overwritten, except under the name \<open>__proto__\<close>, where the write goes
  to the accessor that \<open>Object.prototype\<close> provides, which ignores a number.
\<close>

definition recordSet :: "string \<Rightarrow> real \<Rightarrow> (string \<times> real) list \<Rightarrow> (string \<times> real) list" where
  "recordSet k v obj = (if k = ''__proto__'' then obj else AList.update k v obj)"

text \<open>
  The distribution loop. Its state is the working pool, \<open>serverAllocations\<close> and
  \<open>totalAllocated\<close>; \<open>break\<close> returns the state, \<open>continue\<close> goes on with the rest.
\<close>

fun distribute ::
  "nat list \<Rightarrow> real \<Rightarrow> ServerResource list \<Rightarrow> (string \<times> real) list \<Rightarrow> real
     \<Rightarrow> ServerResource list \<times> (string \<times> real) list \<times> real" where
  "distribute [] targetRam pool sa totalAllocated = (pool, sa, totalAllocated)"
| "distribute (i # rest) targetRam pool sa totalAllocated =
     (if totalAllocated \<ge> targetRam then (pool, sa, totalAllocated)
      else if availableRam (pool ! i) \<le> 0 then distribute rest targetRam pool sa totalAllocated
      else
        let needed = fl (targetRam - totalAllocated);
            toAllocate = min needed (availableRam (pool ! i))
        in if toAllocate > 0
           then distribute rest targetRam
                  (pool[i := (pool ! i)\<lparr>availableRam := fl (availableRam (pool ! i) - toAllocate)\<rparr>])
                  (recordSet (hostname (pool ! i)) toAllocate sa)
                  (fl (totalAllocated + toAllocate))
           else distribute rest targetRam pool sa totalAllocated)"

text \<open>\<open>remainingPool.find(s => s.hostname === hostname)\<close>, as a position.\<close>

fun findServer :: "string \<Rightarrow> ServerResource list \<Rightarrow> nat option" where
  "findServer h [] = None"
| "findServer h (s # ss) =
     (if hostname s = h then Some 0 else map_option Suc (findServer h ss))"

fun rollback :: "(string \<times> real) list \<Rightarrow> ServerResource list \<Rightarrow> ServerResource list" where
  "rollback [] pool = pool"
| "rollback ((h, allocated) # es) pool =
     rollback es
       (case findServer h pool of
          None \<Rightarrow> pool
        | Some i \<Rightarrow>
            pool[i := (pool ! i)\<lparr>availableRam := fl (availableRam (pool ! i) + allocated)\<rparr>])"

text \<open>
  Returns the allocation (\<open>None\<close> for \<open>null\<close>) together with the working pool as the
  call leaves it.
\<close>

definition allocateToModule ::
  "ResourceRequest \<Rightarrow> ServerResource list \<Rightarrow> ResourceAllocation option \<times> ServerResource list" where
  "allocateToModule request remainingPool =
     (case distribute (sortedPool request remainingPool) (maxRam request) remainingPool [] 0 of
        (pool', sa, totalAllocated) \<Rightarrow>
          if totalAllocated < minRam request then (None, rollback sa pool')
          else (Some \<lparr>allocModuleName = moduleName request,
                       allocatedRam = totalAllocated,
                       serverAllocations = sa\<rparr>, pool'))"

subsection \<open>allocateResources\<close>

definition optimizeAllocation :: "ResourceAllocation list \<Rightarrow> ResourceAllocation list" where
  "optimizeAllocation allocations = allocations"

definition sortedRequests :: "ResourceRequest list \<Rightarrow> ResourceRequest list" where
  "sortedRequests requests = sortBy (\<lambda>a b. priority b - priority a) requests"

text \<open>The loop over the sorted requests: the allocations pushed so far and the working pool.\<close>

fun allocateLoop ::
  "ResourceRequest list \<Rightarrow> ServerResource list \<Rightarrow> ResourceAllocation list \<times> ServerResource list" where
  "allocateLoop [] remainingPool = ([], remainingPool)"
| "allocateLoop (request # rest) remainingPool =
     (case allocateToModule request remainingPool of
        (allocation, pool') \<Rightarrow>
          (case allocateLoop rest pool' of
             (allocations, pool'') \<Rightarrow>
               ((case allocation of None \<Rightarrow> [] | Some a \<Rightarrow> [a]) @ allocations, pool'')))"

definition allocateResources ::
  "ServerResource list \<Rightarrow> ResourceRequest list \<Rightarrow> ResourceAllocation list" where
  "allocateResources pool requests =
     optimizeAllocation (fst (allocateLoop (sortedRequests requests) pool))"

subsection \<open>Notions the allocator's properties are stated with\<close>

text \<open>\<open>serverAllocations[h]\<close>, read as 0 where the key is absent.\<close>

definition entry :: "(string \<times> real) list \<Rightarrow> string \<Rightarrow> real" where
  "entry sa h = (case map_of sa h of None \<Rightarrow> 0 | Some v \<Rightarrow> v)"

text \<open>What a list of allocations holds on host \<open>h\<close>.\<close>

definition allocatedOn :: "string \<Rightarrow> ResourceAllocation list \<Rightarrow> real" where
  "allocatedOn h allocations = sum_list (map (\<lambda>a. entry (serverAllocations a) h) allocations)"

text \<open>A server with its \<open>availableRam\<close> masked: the part of it the allocator never writes.\<close>

definition blank :: "ServerResource \<Rightarrow> ServerResource" where
  "blank s = s\<lparr>availableRam := 0\<rparr>"

text \<open>The RAM a pool can give: servers with \<open>availableRam \<le> 0\<close> are skipped.\<close>

definition poolSupply :: "ServerResource list \<Rightarrow> real" where
  "poolSupply P = sum_list (map (\<lambda>s. max 0 (availableRam s)) P)"

text \<open>\<open>totalAllocated\<close> as it stands when the distribution loop of \<open>allocateToModule\<close> ends.\<close>

definition totalTaken :: "ResourceRequest \<Rightarrow> ServerResource list \<Rightarrow> real" where
  "totalTaken request remainingPool =
     (case distribute (sortedPool request remainingPool) (maxRam request) remainingPool [] 0 of
        (pool', sa, totalAllocated) \<Rightarrow> totalAllocated)"

text \<open>The comparators of \<open>allocateToModule\<close> are the lexicographic orders on these keys.\<close>

definition defaultKey :: "ServerResource \<Rightarrow> bool \<times> real" where
  "defaultKey s = (isHome s, - availableRam s)"

definition preferredKey :: "string list \<Rightarrow> ServerResource \<Rightarrow> bool \<times> bool \<times> real" where
  "preferredKey prefs s = (hostname s \<notin> set prefs, isHome s, - availableRam s)"

text \<open>
  The node ordering as the specification words it for a request with preferred servers:
  preferred nodes first, each group in the relative order of the pool.
\<close>

definition spec_preferredOrder :: "string list \<Rightarrow> ServerResource list \<Rightarrow> ServerResource list" where
  "spec_preferredOrder prefs pool =
     filter (\<lambda>s. hostname s \<in> set prefs) pool @ filter (\<lambda>s. hostname s \<notin> set prefs) pool"

text \<open>
  The greedy rule as the specification words it, in JavaScript numbers: each node in turn
  gives \<open>min(remaining need, available)\<close>, nothing once the target is met or where nothing
  is available. The remaining need is the rounded difference of the target and the running
  total, the running total the rounded sum of the takes. \<open>spec_greedy\<close> returns the take of
  every node and the final total; a node that gave something is left with the rounded
  difference of what it had and what it gave.
\<close>

definition spec_take :: "real \<Rightarrow> real \<Rightarrow> real \<Rightarrow> real" where
  "spec_take target sofar available =
     (if target \<le> sofar then 0 else max 0 (min (fl (target - sofar)) available))"

fun spec_greedy :: "real \<Rightarrow> real \<Rightarrow> real list \<Rightarrow> real list \<times> real" where
  "spec_greedy target sofar [] = ([], sofar)"
| "spec_greedy target sofar (a # as) =
     (let taken = spec_take target sofar a;
          (takes, sofar') = spec_greedy target (if 0 < taken then fl (sofar + taken) else sofar) as
      in (taken # takes, sofar'))"

definition spec_remaining :: "real \<Rightarrow> real \<Rightarrow> real" where
  "spec_remaining available taken = (if 0 < taken then fl (available - taken) else available)"

section \<open>Module registry (core/module-registry.ts)\<close>

text \<open>
  The registry lives in the file \<open>/state/module-registry.txt\<close>; every operation loads the
  whole table, changes it and saves it. The store below is what the functions read and
  write: the parsed content of the file (\<open>None\<close> when the file is missing, empty or not
  JSON, in which case \<open>readState\<close> returns the default it was given), the object
  \<open>DEFAULT_REGISTRY\<close> of the module, whether \<open>ns.write\<close> throws, and the clock read by
  \<open>Date.now()\<close>. A file that is there holds what \<open>saveRegistry\<close> wrote: a table of module
  records and a time.

  \<open>Record<string, RegisteredModule>\<close> is a plain object, kept as the map of its own
  properties. Writing \<open>obj[name] = v\<close> makes or overwrites the own property \<open>name\<close>, except
  for the name \<open>__proto__\<close>: unless the object already has an own property of that name
  (\<open>JSON.parse\<close> can make one), the write goes to the accessor that \<open>Object.prototype\<close>
  provides, which replaces the prototype of the object and adds no own property, so that
  \<open>JSON.stringify\<close> does not see the value. What an object inherits matters to the test
  \<open>if (registry.modules[name])\<close> of \<open>registerModule\<close> only, which chooses a line of the
  script log; the log is not part of the store.
\<close>

datatype ModuleLifecycleState = Stopped | Starting | Running | Paused | Error

record RamAllocation =
  requested :: real
  allocated :: real
  actual :: real

text \<open>\<open>config: any\<close>: the one field the registry reads, and the rest kept opaque.\<close>

record ModuleConfig =
  minRamRequired :: "real option"
  otherSettings :: "(string \<times> string) list"

record RegisteredModule =
  name :: string
  scriptPath :: string
  config :: ModuleConfig
  modulePriority :: real
  status :: ModuleLifecycleState
  pid :: "nat option"
  controlPort :: nat
  statusPort :: nat
  lastStatusUpdate :: nat
  ramAllocation :: RamAllocation

record ModuleRegistry =
  modules :: "string \<Rightarrow> RegisteredModule option"
  lastUpdate :: nat

record NS =
  registryFile :: "ModuleRegistry option"
  defaultRegistry :: ModuleRegistry
  writeFails :: bool
  clock :: nat

text \<open>\<open>obj[name] = v\<close> on a plain object, as a change of its own properties.\<close>

definition objSet ::
  "string \<Rightarrow> 'v \<Rightarrow> (string \<Rightarrow> 'v option) \<Rightarrow> (string \<Rightarrow> 'v option)" where
  "objSet n v obj = (if n = ''__proto__'' \<and> obj n = None then obj else obj(n \<mapsto> v))"

text \<open>
  \<open>readState\<close> hands out \<open>DEFAULT_REGISTRY\<close> itself when there is nothing to parse, and
  \<open>loadRegistry\<close> copies the two fields into a new object: \<open>modules\<close> is then the table of
  \<open>DEFAULT_REGISTRY\<close>, not a copy of it. A time of 0 is falsy and replaced by the clock.
\<close>

definition readState :: "NS \<Rightarrow> ModuleRegistry" where
  "readState ns = (case registryFile ns of None \<Rightarrow> defaultRegistry ns | Some registry \<Rightarrow> registry)"

definition loadRegistry :: "NS \<Rightarrow> ModuleRegistry" where
  "loadRegistry ns =
     (let registry = readState ns
      in \<lparr>modules = modules registry,
          lastUpdate = (if lastUpdate registry = 0 then clock ns else lastUpdate registry)\<rparr>)"

text \<open>\<open>writeState\<close> catches the exception of \<open>ns.write\<close> and returns false.\<close>

definition saveRegistry :: "NS \<Rightarrow> ModuleRegistry \<Rightarrow> bool \<times> NS" where
  "saveRegistry ns registry =
     (if writeFails ns then (False, ns)
      else (True, ns\<lparr>registryFile := Some (registry\<lparr>lastUpdate := clock ns\<rparr>)\<rparr>))"

text \<open>\<open>config.minRamRequired || 0\<close>: an absent field and 0 both give 0.\<close>

definition requestedRam :: "ModuleConfig \<Rightarrow> real" where
  "requestedRam c = (case minRamRequired c of None \<Rightarrow> 0 | Some v \<Rightarrow> if v = 0 then 0 else v)"

text \<open>
  \<open>registerModule\<close>. The configuration is \<open>None\<close> for \<open>null\<close> and \<open>undefined\<close>, on which
  reading \<open>config.minRamRequired\<close> throws; the \<open>catch\<close> then returns false, and nothing has
  been written. The write \<open>registry.modules[name] = module\<close> changes the table that
  \<open>loadRegistry\<close> returned: when that is the table of \<open>DEFAULT_REGISTRY\<close>, the change stays
  there whether or not the file is written afterwards.
\<close>

definition registerModule ::
  "NS \<Rightarrow> string \<Rightarrow> string \<Rightarrow> ModuleConfig option \<Rightarrow> real \<Rightarrow> nat \<Rightarrow> nat \<Rightarrow> bool \<times> NS" where
  "registerModule ns n path cfg prio cPort sPort =
     (case cfg of
        None \<Rightarrow> (False, ns)
      | Some c \<Rightarrow>
          let registry = loadRegistry ns;
              module = \<lparr>name = n, scriptPath = path, config = c, modulePriority = prio,
                        status = Stopped, pid = None, controlPort = cPort, statusPort = sPort,
                        lastStatusUpdate = clock ns,
                        ramAllocation = \<lparr>requested = requestedRam c, allocated = 0, actual = 0\<rparr>\<rparr>;
              table = objSet n module (modules registry);
              ns1 = (if registryFile ns = None
                     then ns\<lparr>defaultRegistry := (defaultRegistry ns)\<lparr>modules := table\<rparr>\<rparr>
                     else ns)
          in saveRegistry ns1 (registry\<lparr>modules := table\<rparr>))"

section \<open>Network change detection (core/network-manager.ts)\<close>

text \<open>
  What the functions read from the game: the neighbours of a server (\<open>ns.scan\<close>), root
  access, the fields of \<open>ns.getServer\<close> that decide whether a server is purchased or
  hackable, and, for the resource pool, \<open>ns.getServerMaxRam\<close>, \<open>ns.getServerUsedRam\<close> and
  \<open>ns.getPurchasedServers\<close>.
\<close>

record Game =
  scan :: "string \<Rightarrow> string list"
  hasRootAccess :: "string \<Rightarrow> bool"
  purchasedByPlayer :: "string \<Rightarrow> bool"
  moneyMax :: "string \<Rightarrow> real option"
  requiredHackingSkill :: "string \<Rightarrow> real option"
  hackingLevel :: real
  serverMaxRam :: "string \<Rightarrow> real"
  serverUsedRam :: "string \<Rightarrow> real"
  nsPurchasedServers :: "string list"

record NetworkState =
  allServers :: "string list"
  rootedServers :: "string list"
  hackableServers :: "string list"
  purchasedServers :: "string list"
  totalRamAvailable :: real
  lastScan :: nat

record NetworkChanges =
  newServers :: "string list"
  newlyRooted :: "string list"
  newlyPurchased :: "string list"
  leveledUp :: bool
  totalChanges :: nat

text \<open>
  The breadth-first loop of \<open>scanEntireNetwork\<close>. \<open>discovered\<close> is a \<open>Set\<close>, kept as the list
  of its elements in insertion order (what \<open>Array.from\<close> returns). The loop need not end on
  an arbitrary neighbour function, so its result is optional.
\<close>

partial_function (option) scanLoop ::
  "(string \<Rightarrow> string list) \<Rightarrow> string list \<Rightarrow> string list \<Rightarrow> string list option" where
  "scanLoop neighbours discovered queue =
     (case queue of
        [] \<Rightarrow> Some discovered
      | current # rest \<Rightarrow>
          if current \<in> set discovered then scanLoop neighbours discovered rest
          else scanLoop neighbours (discovered @ [current])
                 (rest @ filter (\<lambda>n. n \<notin> set (discovered @ [current])) (neighbours current)))"

definition scanEntireNetwork :: "Game \<Rightarrow> string list option" where
  "scanEntireNetwork g = scanLoop (scan g) [] [''home'']"

definition isHackable :: "Game \<Rightarrow> string \<Rightarrow> bool" where
  "isHackable g h \<longleftrightarrow>
     (case moneyMax g h of None \<Rightarrow> False | Some m \<Rightarrow> m \<noteq> 0 \<and> m > 0)
     \<and> (case requiredHackingSkill g h of None \<Rightarrow> False | Some r \<Rightarrow> r \<le> hackingLevel g)"

definition getHackableServers :: "Game \<Rightarrow> string list option" where
  "getHackableServers g = map_option (filter (isHackable g)) (scanEntireNetwork g)"

definition getPurchasedServers :: "Game \<Rightarrow> string list option" where
  "getPurchasedServers g = map_option (filter (purchasedByPlayer g)) (scanEntireNetwork g)"

definition detectNetworkChanges :: "Game \<Rightarrow> NetworkState option \<Rightarrow> NetworkChanges option" where
  "detectNetworkChanges g oldState =
     (case scanEntireNetwork g of None \<Rightarrow> None | Some currentServers \<Rightarrow>
      let currentRooted = filter (hasRootAccess g) currentServers in
      case getPurchasedServers g of None \<Rightarrow> None | Some currentPurchased \<Rightarrow>
      (case oldState of
         None \<Rightarrow>
           Some \<lparr>newServers = currentServers, newlyRooted = currentRooted,
                 newlyPurchased = currentPurchased, leveledUp = False,
                 totalChanges = length currentServers\<rparr>
       | Some old \<Rightarrow>
           let newS = filter (\<lambda>h. h \<notin> set (allServers old)) currentServers;
               newR = filter (\<lambda>h. h \<notin> set (rootedServers old)) currentRooted;
               newP = filter (\<lambda>h. h \<notin> set (purchasedServers old)) currentPurchased
           in case getHackableServers g of None \<Rightarrow> None | Some currentHackable \<Rightarrow>
              let lvl = length currentHackable > length (hackableServers old)
              in Some \<lparr>newServers = newS, newlyRooted = newR, newlyPurchased = newP,
                       leveledUp = lvl,
                       totalChanges = length newS + length newR + length newP + (if lvl then 1 else 0)\<rparr>))"


section \<open>Building the resource pool (core/resource-allocator.ts)\<close>

text \<open>
  The breadth-first loop of \<open>buildResourcePool\<close>: the visited set, the queue and the pool
  built so far. Like the scan above it need not end on an arbitrary neighbour function.
\<close>

partial_function (option) poolLoop ::
  "Game \<Rightarrow> real \<Rightarrow> string list \<Rightarrow> string list \<Rightarrow> ServerResource list
     \<Rightarrow> ServerResource list option" where
  "poolLoop g reserveHomeRam visited queue pool =
     (case queue of
        [] \<Rightarrow> Some pool
      | h # rest \<Rightarrow>
          if h \<in> set visited then poolLoop g reserveHomeRam visited rest pool
          else
            let visited' = visited @ [h];
                queue' = rest @ filter (\<lambda>n. n \<notin> set visited') (scan g h)
            in if \<not> hasRootAccess g h then poolLoop g reserveHomeRam visited' queue' pool
               else
                 let total = serverMaxRam g h;
                     used = serverUsedRam g h;
                     home = (h = ''home'');
                     avail0 = fl (total - used);
                     avail = (if home then max 0 (fl (avail0 - reserveHomeRam)) else avail0)
                 in poolLoop g reserveHomeRam visited' queue'
                      (if total > 0
                       then pool @ [\<lparr>hostname = h, totalRam = total, usedRam = used,
                                     availableRam = avail, isHome = home,
                                     isPurchased = (h \<in> set (nsPurchasedServers g))\<rparr>]
                       else pool))"

definition buildResourcePool :: "Game \<Rightarrow> real \<Rightarrow> ServerResource list option" where
  "buildResourcePool g reserveHomeRam =
     map_option (sortBy (\<lambda>a b. availableRam b - availableRam a))
       (poolLoop g reserveHomeRam [] [''home''] [])"

section \<open>Port messages (ns-utils.ts)\<close>

text \<open>
  Modelled from the spec: the port handle returned by \<open>ns.getPortHandle\<close> belongs to
  the game and is not among the sources. Its \<open>full\<close>, \<open>clear\<close>, \<open>write\<close> and \<open>empty\<close> are
  \<open>portFull\<close>, \<open>portClear\<close>, \<open>portWrite\<close> and \<open>portEmpty\<close> here, its \<open>read\<close> is inside
  \<open>receiveMessage\<close>. A channel is a bounded first-in-first-out queue of serialized
  messages; all ports share one capacity; \<open>write\<close> appends and drops the oldest entry
  when the bound is exceeded. Port numbers start at 1, and \<open>getPortHandle\<close> throws on any
  other number, which \<open>sendMessage\<close> and \<open>receiveMessage\<close> catch. A message is kept as the
  pair that \<open>JSON.stringify\<close> serializes and \<open>JSON.parse\<close> gives back; its data is taken
  to be serializable.
\<close>

record 'a PortMessage =
  timestamp :: nat
  data :: 'a

record 'a Ports =
  maxQueueSize :: nat
  portData :: "nat \<Rightarrow> 'a PortMessage list"
  now :: nat

definition portFull :: "'a Ports \<Rightarrow> nat \<Rightarrow> bool" where
  "portFull ports p \<longleftrightarrow> length (portData ports p) = maxQueueSize ports"

definition portEmpty :: "'a Ports \<Rightarrow> nat \<Rightarrow> bool" where
  "portEmpty ports p \<longleftrightarrow> portData ports p = []"

definition portClear :: "'a Ports \<Rightarrow> nat \<Rightarrow> 'a Ports" where
  "portClear ports p = ports\<lparr>portData := (portData ports)(p := [])\<rparr>"

definition portWrite :: "'a Ports \<Rightarrow> nat \<Rightarrow> 'a PortMessage \<Rightarrow> 'a Ports" where
  "portWrite ports p v =
     (let q = portData ports p @ [v]
      in ports\<lparr>portData := (portData ports)(p := if length q > maxQueueSize ports then tl q else q)\<rparr>)"

definition sendMessage :: "'a Ports \<Rightarrow> nat \<Rightarrow> 'a \<Rightarrow> bool \<times> 'a Ports" where
  "sendMessage ports port message =
     (if port = 0 then (False, ports)
      else
        let messageData = \<lparr>timestamp = now ports, data = message\<rparr>;
            ports1 = (if portFull ports port then portClear ports port else ports)
        in (True, portWrite ports1 port messageData))"

definition receiveMessage :: "'a Ports \<Rightarrow> nat \<Rightarrow> 'a option \<times> 'a Ports" where
  "receiveMessage ports port =
     (if port = 0 then (None, ports)
      else if portEmpty ports port then (None, ports)
      else (Some (data (hd (portData ports port))),
            ports\<lparr>portData := (portData ports)(port := tl (portData ports port))\<rparr>))"

definition hasMessages :: "'a Ports \<Rightarrow> nat \<Rightarrow> bool" where
  "hasMessages ports port \<longleftrightarrow> (if port = 0 then False else \<not> portEmpty ports port)"


section \<open>Sample data\<close>

text \<open>Servers and requests of the scenarios below; a decimal literal is rounded by \<open>fl\<close>.\<close>

definition exServer :: "string \<Rightarrow> real \<Rightarrow> bool \<Rightarrow> ServerResource" where
  "exServer h avail home =
     \<lparr>hostname = h, totalRam = avail, usedRam = 0, availableRam = avail, isHome = home,
      isPurchased = False\<rparr>"

definition exRequest :: "string \<Rightarrow> real \<Rightarrow> real \<Rightarrow> real \<Rightarrow> string list option \<Rightarrow> ResourceRequest" where
  "exRequest n prio lo hi prefs =
     \<lparr>moduleName = n, priority = prio, minRam = lo, maxRam = hi, preferredServers = prefs\<rparr>"

text \<open>
  A module configuration, a store whose file holds one running module, a store without a
  file, and a small network.
\<close>

definition exConfig :: "real \<Rightarrow> ModuleConfig" where
  "exConfig r = \<lparr>minRamRequired = Some r, otherSettings = []\<rparr>"

definition exModule :: RegisteredModule where
  "exModule =
     \<lparr>name = ''xp-farmer'', scriptPath = ''/modules/xp-farmer.ts'', config = exConfig 4,
      modulePriority = 80, status = Running, pid = Some 7, controlPort = 1, statusPort = 2,
      lastStatusUpdate = 100,
      ramAllocation = \<lparr>requested = 4, allocated = 64, actual = 60\<rparr>\<rparr>"

definition exStore :: NS where
  "exStore =
     \<lparr>registryFile = Some \<lparr>modules = [''xp-farmer'' \<mapsto> exModule], lastUpdate = 100\<rparr>,
      defaultRegistry = \<lparr>modules = Map.empty, lastUpdate = 50\<rparr>,
      writeFails = False, clock = 200\<rparr>"

definition freshStore :: NS where
  "freshStore =
     \<lparr>registryFile = None,
      defaultRegistry = \<lparr>modules = Map.empty, lastUpdate = 50\<rparr>,
      writeFails = False, clock = 200\<rparr>"

definition exGame :: Game where
  "exGame =
     \<lparr>scan = (\<lambda>h. if h = ''home'' then [''B'', ''C''] else [''home'']),
      hasRootAccess = (\<lambda>h. h = ''home'' \<or> h = ''B''),
      purchasedByPlayer = (\<lambda>h. False),
      moneyMax = (\<lambda>h. None),
      requiredHackingSkill = (\<lambda>h. None),
      hackingLevel = 1,
      serverMaxRam = (\<lambda>h. 0), serverUsedRam = (\<lambda>h. 0), nsPurchasedServers = []\<rparr>"

definition exOldState :: NetworkState where
  "exOldState =
     \<lparr>allServers = [''home'', ''B''], rootedServers = [''home''], hackableServers = [],
      purchasedServers = [], totalRamAvailable = 0, lastScan = 0\<rparr>"

text \<open>The name \<open>__proto__\<close> registered twice, with different arguments, where there is no file.\<close>

definition protoOnce :: "bool \<times> NS" where
  "protoOnce = registerModule freshStore ''__proto__'' ''/modules/a.ts'' (Some (exConfig 4)) 50 1 2"

definition protoTwice :: "bool \<times> NS" where
  "protoTwice = registerModule (snd protoOnce) ''__proto__'' ''/modules/b.ts'' (Some (exConfig 8)) 60 3 4"

section \<open>Properties of the rounding\<close>

text \<open>
  \<open>fl\<close> rounds to a nearest point of the grid that the doubles form around its argument:
  the grid has the spacing \<open>2 ^ (e - 52)\<close> in the binade \<open>2 ^ e \<le> |x| < 2 ^ (e + 1)\<close>, the
  result is within half a spacing, a grid point is left as it is, and a tie goes to the
  even multiple.
\<close>

lemma pow2_powi: "pow2 e = 2 powi e"
  by (simp add: pow2_def power_int_def inverse_eq_divide power_one_over)

lemma pow2_pos: "0 < pow2 e"
  by (simp add: pow2_powi)

lemma pow2_nat: "pow2 (int n) = 2 ^ n"
  by (simp add: pow2_def)

lemma pow2_neg: "pow2 (- e) = 1 / pow2 e"
  by (simp add: pow2_powi power_int_minus inverse_eq_divide)

lemma bitLength_bounds:
  "0 < n \<Longrightarrow> (2::nat) ^ (bitLength n - 1) \<le> n \<and> n < (2::nat) ^ bitLength n"
proof (induction n rule: bitLength.induct)
  case (1 n)
  have bl: "bitLength n = Suc (bitLength (n div 2))"
    using "1.prems" by (subst bitLength.simps) simp
  show ?case
  proof (cases "n div 2 = 0")
    case True
    then have "bitLength (n div 2) = 0" by (subst bitLength.simps) simp
    moreover from True "1.prems" have "n = 1" by (cases n) auto
    ultimately show ?thesis unfolding bl by simp
  next
    case False
    then have pos: "0 < n div 2" by simp
    define k where "k = bitLength (n div 2)"
    from "1.IH" [OF _ pos] "1.prems"
    have ih: "(2::nat) ^ (k - 1) \<le> n div 2" "n div 2 < (2::nat) ^ k"
      by (simp_all add: k_def)
    have b1: "0 < k"
      unfolding k_def using pos by (subst bitLength.simps) simp
    then have p: "(2::nat) ^ k = 2 * 2 ^ (k - 1)"
      by (cases k) simp_all
    have lo: "2 * (n div 2) \<le> n" by simp
    have hi: "n < 2 * (n div 2) + 2" by presburger
    have "(2::nat) ^ k \<le> n" using ih(1) lo p by linarith
    moreover have "n < 2 * (2::nat) ^ k" using ih(2) hi by linarith
    ultimately show ?thesis unfolding bl k_def [symmetric] by simp
  qed
qed

lemma bitLength_real:
  assumes "0 < n"
  shows "(2::real) ^ (bitLength n - 1) \<le> real n" and "real n + 1 \<le> (2::real) ^ bitLength n"
proof -
  from bitLength_bounds [OF assms]
  have lo: "(2::nat) ^ (bitLength n - 1) \<le> n" and hi: "n + 1 \<le> (2::nat) ^ bitLength n"
    by simp_all
  have "real ((2::nat) ^ (bitLength n - 1)) \<le> real n"
    using lo by (simp only: of_nat_le_iff)
  then show "(2::real) ^ (bitLength n - 1) \<le> real n"
    by (simp only: of_nat_power of_nat_numeral)
  have "real (n + 1) \<le> real ((2::nat) ^ bitLength n)"
    using hi by (simp only: of_nat_le_iff)
  then show "real n + 1 \<le> (2::real) ^ bitLength n"
    by (simp only: of_nat_power of_nat_numeral of_nat_add of_nat_1)
qed

lemma binade_bounds:
  assumes "x \<noteq> 0"
  shows "pow2 (binade x) \<le> \<bar>x\<bar> \<and> \<bar>x\<bar> < pow2 (binade x + 1)"
proof (cases "1 \<le> \<bar>x\<bar>")
  case True
  define n where "n = nat \<lfloor>\<bar>x\<bar>\<rfloor>"
  have n: "0 < n" "real n \<le> \<bar>x\<bar>" "\<bar>x\<bar> < real n + 1"
    using True unfolding n_def by linarith+
  have b: "binade x = int (bitLength n) - 1" using True by (simp add: binade_def n_def)
  have bl: "0 < bitLength n" using n(1) by (subst bitLength.simps) simp
  have p1: "pow2 (int (bitLength n) - 1) = 2 ^ (bitLength n - 1)"
    using bl pow2_nat [of "bitLength n - 1"] by (simp add: of_nat_diff)
  have p2: "pow2 (int (bitLength n) - 1 + 1) = 2 ^ bitLength n"
    by (simp add: pow2_nat)
  have l: "(2::real) ^ (bitLength n - 1) \<le> \<bar>x\<bar>"
    using bitLength_real(1) [OF n(1)] n(2) by (rule order_trans)
  have h: "\<bar>x\<bar> < (2::real) ^ bitLength n"
    using n(3) bitLength_real(2) [OF n(1)] by (rule less_le_trans)
  show ?thesis unfolding b p1 p2 using l h by (rule conjI)
next
  case False
  define r where "r = 1 / \<bar>x\<bar>"
  define c where "c = \<lceil>r\<rceil>"
  define n where "n = nat (c - 1)"
  have ax: "0 < \<bar>x\<bar>" "\<bar>x\<bar> < 1" using assms False by simp_all
  then have k: "1 < r" by (simp add: r_def)
  have cb: "real_of_int c - 1 < r" "r \<le> real_of_int c"
    unfolding c_def by (rule ceiling_correct [THEN conjunct1], rule ceiling_correct [THEN conjunct2])
  have "1 < real_of_int c" using k cb(2) by (rule less_le_trans)
  then have c2: "2 \<le> c" by simp
  have n: "0 < n" "int n = c - 1" using c2 by (simp_all add: n_def)
  have b: "binade x = - int (bitLength n)"
    using False by (simp add: binade_def n_def c_def r_def)
  have bl: "0 < bitLength n" using n(1) by (subst bitLength.simps) simp
  have "real_of_int (int n) = real_of_int (c - 1)" by (simp only: n(2))
  then have rn: "real n = real_of_int c - 1" by simp
  have up: "r \<le> 2 ^ bitLength n"
    using bitLength_real(2) [OF n(1)] cb(2) rn by linarith
  have dn: "2 ^ (bitLength n - 1) < r"
    using bitLength_real(1) [OF n(1)] cb(1) rn by linarith
  have p1: "pow2 (- int (bitLength n)) = 1 / 2 ^ bitLength n"
    by (simp only: pow2_neg pow2_nat)
  have e: "- int (bitLength n) + 1 = - int (bitLength n - 1)"
    using bl by (cases "bitLength n") simp_all
  have p2: "pow2 (- int (bitLength n) + 1) = 1 / 2 ^ (bitLength n - 1)"
    by (simp only: e pow2_neg pow2_nat)
  have "1 \<le> 2 ^ bitLength n * \<bar>x\<bar>"
    using up ax(1) unfolding r_def by (simp only: pos_divide_le_eq)
  then have l: "1 / 2 ^ bitLength n \<le> \<bar>x\<bar>"
    by (simp only: pos_divide_le_eq zero_less_power zero_less_numeral mult.commute)
  have "2 ^ (bitLength n - 1) * \<bar>x\<bar> < 1"
    using dn ax(1) unfolding r_def by (simp only: pos_less_divide_eq)
  then have h: "\<bar>x\<bar> < 1 / 2 ^ (bitLength n - 1)"
    by (simp only: pos_less_divide_eq zero_less_power zero_less_numeral mult.commute)
  show ?thesis unfolding b p1 p2 using l h by (rule conjI)
qed

lemma roundEven_nearest: "\<bar>real_of_int (roundEven y) - y\<bar> \<le> 1 / 2"
proof -
  define f where "f = \<lfloor>y\<rfloor>"
  have fb: "real_of_int f \<le> y" "y < real_of_int f + 1"
    unfolding f_def by linarith+
  show ?thesis
    unfolding roundEven_def Let_def f_def [symmetric]
    using fb by (simp split: if_splits)
qed

lemma roundEven_int: "roundEven (real_of_int k) = k"
  by (simp add: roundEven_def)

lemma roundEven_tie: "y = real_of_int k + 1 / 2 \<Longrightarrow> even (roundEven y)"
proof -
  assume y: "y = real_of_int k + 1 / 2"
  then have "\<lfloor>y\<rfloor> = k" by linarith
  then show ?thesis by (simp add: roundEven_def y)
qed

lemma fl_error: "\<bar>fl x - x\<bar> \<le> pow2 (max (binade x - 52) (- 1074)) / 2"
proof (cases "x = 0")
  case True
  then show ?thesis using pow2_pos [of "max (binade 0 - 52) (- 1074)"] by (simp add: fl_def)
next
  case False
  define e where "e = max (binade x - 52) (- 1074)"
  have p: "0 < pow2 e" by (rule pow2_pos)
  have "fl x - x = (real_of_int (roundEven (x / pow2 e)) - x / pow2 e) * pow2 e"
    using False p by (simp add: fl_def e_def Let_def field_simps)
  then have "\<bar>fl x - x\<bar> = \<bar>real_of_int (roundEven (x / pow2 e)) - x / pow2 e\<bar> * pow2 e"
    using p by (simp add: abs_mult)
  also have "\<dots> \<le> 1 / 2 * pow2 e"
    using roundEven_nearest [of "x / pow2 e"] p by (intro mult_right_mono) simp_all
  finally show ?thesis by (simp add: e_def)
qed

lemma fl_exact:
  assumes "x = real_of_int m * pow2 (max (binade x - 52) (- 1074))"
  shows "fl x = x"
proof (cases "x = 0")
  case True
  then show ?thesis by (simp add: fl_def)
next
  case False
  define e where "e = max (binade x - 52) (- 1074)"
  have p: "0 < pow2 e" by (rule pow2_pos)
  have xe: "x = real_of_int m * pow2 e" using assms by (simp add: e_def)
  have "x / pow2 e = real_of_int m" using p by (subst xe) simp
  then have "roundEven (x / pow2 e) = m" by (simp add: roundEven_int)
  then have "fl x = real_of_int m * pow2 e"
    using False by (simp add: fl_def Let_def flip: e_def)
  then show ?thesis using xe by simp
qed

section \<open>Properties of the allocator\<close>

subsection \<open>Sorting\<close>

lemma insertBy_insort_key:
  assumes "\<And>a b. cmp a b \<le> 0 \<longleftrightarrow> key a \<le> key b"
  shows "insertBy cmp x ys = insort_key key x ys"
  by (induction ys) (simp_all add: assms)

lemma sortBy_sort_key:
  assumes "\<And>a b. cmp a b \<le> 0 \<longleftrightarrow> key a \<le> key b"
  shows "sortBy cmp xs = sort_key key xs"
  by (induction xs) (simp_all add: sortBy_def insertBy_insort_key [OF assms])

lemma map_insertBy:
  "map f (insertBy (\<lambda>i j. cmp (f i) (f j)) x ys) = insertBy cmp (f x) (map f ys)"
  by (induction ys) simp_all

lemma map_sortBy:
  "map f (sortBy (\<lambda>i j. cmp (f i) (f j)) xs) = sortBy cmp (map f xs)"
  by (induction xs) (simp_all add: sortBy_def map_insertBy)

lemma cmpDefault_key: "cmpDefault a b \<le> 0 \<longleftrightarrow> defaultKey a \<le> defaultKey b"
  by (auto simp: cmpDefault_def defaultKey_def less_eq_prod_def)

lemma cmpPreferred_key: "cmpPreferred prefs a b \<le> 0 \<longleftrightarrow> preferredKey prefs a \<le> preferredKey prefs b"
  by (auto simp: cmpPreferred_def preferredKey_def less_eq_prod_def Let_def)

lemma sortedPool_servers:
  "map ((!) pool) (sortedPool request pool) = sortBy (poolComparator request) pool"
  unfolding sortedPool_def by (simp add: map_sortBy map_nth)


lemma set_insertBy: "set (insertBy cmp x ys) = insert x (set ys)"
  by (induction ys) auto

lemma distinct_insertBy: "distinct (insertBy cmp x ys) \<longleftrightarrow> x \<notin> set ys \<and> distinct ys"
  by (induction ys) (auto simp: set_insertBy)

lemma mset_insertBy: "mset (insertBy cmp x ys) = add_mset x (mset ys)"
  by (induction ys) simp_all

lemma mset_sortBy: "mset (sortBy cmp xs) = mset xs"
  by (induction xs) (simp_all add: sortBy_def mset_insertBy)

lemma set_sortBy: "set (sortBy cmp xs) = set xs"
  by (induction xs) (simp_all add: sortBy_def set_insertBy)

lemma distinct_sortBy: "distinct (sortBy cmp xs) = distinct xs"
  by (induction xs) (simp_all add: sortBy_def distinct_insertBy set_sortBy [unfolded sortBy_def])

lemma sortedPool_set: "set (sortedPool request P) = {..< length P}"
  by (auto simp: sortedPool_def set_sortBy)

lemma sortedPool_distinct: "distinct (sortedPool request P)"
  by (simp add: sortedPool_def distinct_sortBy)

lemma sortedPool_preferred:
  assumes "preferredServers request = Some prefs" "prefs \<noteq> []"
  shows "map ((!) pool) (sortedPool request pool) = sort_key (preferredKey prefs) pool"
  by (simp add: sortedPool_servers poolComparator_def assms
        sortBy_sort_key [of "cmpPreferred prefs" "preferredKey prefs"] cmpPreferred_key)

lemma sortedPool_default:
  assumes "preferredServers request = None \<or> preferredServers request = Some []"
  shows "map ((!) pool) (sortedPool request pool) = sort_key defaultKey pool"
  using assms
  by (auto simp: sortedPool_servers poolComparator_def
        sortBy_sort_key [of cmpDefault defaultKey] cmpDefault_key)

lemma defaultKey_le:
  "defaultKey a \<le> defaultKey b \<Longrightarrow>
     (isHome a \<longrightarrow> isHome b) \<and> (isHome a = isHome b \<longrightarrow> availableRam b \<le> availableRam a)"
  by (auto simp: defaultKey_def less_eq_prod_def)

lemma preferredKey_le:
  "preferredKey prefs a \<le> preferredKey prefs b \<Longrightarrow>
     (hostname b \<in> set prefs \<longrightarrow> hostname a \<in> set prefs)
     \<and> ((hostname a \<in> set prefs) = (hostname b \<in> set prefs) \<longrightarrow>
          (isHome a \<longrightarrow> isHome b) \<and> (isHome a = isHome b \<longrightarrow> availableRam b \<le> availableRam a))"
  by (auto simp: preferredKey_def less_eq_prod_def)

lemma sort_key_sorted_wrt:
  assumes "\<And>a b. key a \<le> key b \<Longrightarrow> R a b"
  shows "sorted_wrt R (sort_key key xs)"
proof -
  have "sorted_wrt (\<lambda>a b. key a \<le> key b) (sort_key key xs)"
    using sorted_sort_key [of key xs] by (simp add: sorted_map)
  then show ?thesis by (rule sorted_wrt_mono_rel [rotated]) (simp add: assms)
qed

subsection \<open>The distribution loop\<close>

lemma blank_update [simp]: "blank (s\<lparr>availableRam := v\<rparr>) = blank s"
  by (simp add: blank_def)

lemma blank_eqI: "blank s = blank t \<Longrightarrow> availableRam s = availableRam t \<Longrightarrow> s = t"
  by (cases s, cases t) (simp add: blank_def)

lemma map_blank_update [simp]:
  "map blank (pool[i := (pool ! i)\<lparr>availableRam := v\<rparr>]) = map blank pool"
  by (cases "i < length pool") (simp_all add: map_update list_update_same_conv list_update_beyond)

lemma map_blank_nth:
  "map blank P' = map blank P \<Longrightarrow> j < length P \<Longrightarrow> blank (P' ! j) = blank (P ! j)"
  by (metis length_map nth_map)

lemma map_blank_hostname:
  "map blank P' = map blank P \<Longrightarrow> map hostname P' = map hostname P"
proof -
  assume a: "map blank P' = map blank P"
  have "map hostname P' = map (hostname \<circ> blank) P'" by (simp add: blank_def)
  also have "\<dots> = map hostname (map blank P')" by simp
  also have "\<dots> = map hostname (map blank P)" by (simp only: a)
  also have "\<dots> = map hostname P" by (simp add: blank_def)
  finally show ?thesis .
qed

lemma distribute_Cons:
  "distribute (i # rest) t P sa tot =
     (let v = spec_take t tot (availableRam (P ! i))
      in if t \<le> tot then (P, sa, tot)
         else if 0 < v
              then distribute rest t (P[i := (P ! i)\<lparr>availableRam := fl (availableRam (P ! i) - v)\<rparr>])
                     (recordSet (hostname (P ! i)) v sa) (fl (tot + v))
              else distribute rest t P sa tot)"
  by (auto simp: spec_take_def Let_def min_def max_def)

lemma distribute_blank:
  "distribute is t P sa tot = (P', sa', tot') \<Longrightarrow> map blank P' = map blank P"
proof (induction "is" arbitrary: P sa tot)
  case Nil
  then show ?case by simp
next
  case (Cons i rest)
  then show ?case
    unfolding distribute_Cons by (auto simp: Let_def split: if_splits)
qed

lemma distribute_pool_frame:
  "distribute is t P sa tot = (P', sa', tot') \<Longrightarrow> j \<notin> set is \<Longrightarrow> P' ! j = P ! j"
proof (induction "is" arbitrary: P sa tot)
  case Nil
  then show ?case by simp
next
  case (Cons i rest)
  then show ?case
    unfolding distribute_Cons by (auto simp: Let_def split: if_splits)
qed

lemma hostname_nth_update:
  "hostname (P[i := (P ! i)\<lparr>availableRam := x\<rparr>] ! k) = hostname (P ! k)"
proof (cases "k = i \<and> i < length P")
  case True
  then show ?thesis by simp
next
  case False
  then show ?thesis by (cases "k = i") (simp_all add: list_update_beyond)
qed

lemma update_fresh: "k \<notin> fst ` set al \<Longrightarrow> AList.update k v al = al @ [(k, v)]"
  by (induction al) auto

lemma recordSet_fresh:
  "0 < v \<Longrightarrow> k \<notin> fst ` set al \<Longrightarrow>
     recordSet k v al = al @ filter (\<lambda>(h, v). 0 < v \<and> h \<noteq> ''__proto__'') [(k, v)]"
  by (simp add: recordSet_def update_fresh)

lemma spec_greedy_Cons:
  "spec_greedy t tot (a # as) =
     (let v = spec_take t tot a;
          r = spec_greedy t (if 0 < v then fl (tot + v) else tot) as
      in (v # fst r, snd r))"
  by (simp add: Let_def case_prod_beta)

lemma spec_greedy_done: "t \<le> tot \<Longrightarrow> spec_greedy t tot as = (map (\<lambda>_. 0) as, tot)"
  by (induction as) (simp_all add: spec_take_def)

lemma length_spec_greedy: "length (fst (spec_greedy t tot as)) = length as"
  by (induction as arbitrary: tot) (simp_all add: Let_def case_prod_beta)

lemma filter_zip_zero:
  "filter (\<lambda>(h, v). 0 < v \<and> h \<noteq> ''__proto__'') (zip hs (map (\<lambda>_. 0 :: real) as)) = []"
  by (induction hs arbitrary: as) (auto simp: zip_Cons1 split: list.splits)

lemma map2_remaining_zero: "map2 spec_remaining as (map (\<lambda>_. 0) as) = as"
  by (induction as) (simp_all add: spec_remaining_def)

text \<open>
  The distribution loop against the greedy rule: the keys it adds to \<open>serverAllocations\<close>
  are the servers that gave something, in the order of the loop, each with its take (but
  for a server named \<open>__proto__\<close>, whose take is not recorded); the
  total is the rule's; every server of the order is left with what the rule leaves it.
\<close>

lemma distribute_spec:
  "distribute is t P sa tot = (P', sa', tot') \<Longrightarrow>
   distinct (map (\<lambda>i. hostname (P ! i)) is) \<Longrightarrow>
   (\<forall>i\<in>set is. hostname (P ! i) \<notin> fst ` set sa) \<Longrightarrow>
   (\<forall>i\<in>set is. i < length P) \<Longrightarrow>
     sa' = sa @ filter (\<lambda>(h, v). 0 < v \<and> h \<noteq> ''__proto__'')
                  (zip (map (\<lambda>i. hostname (P ! i)) is)
                       (fst (spec_greedy t tot (map (\<lambda>i. availableRam (P ! i)) is))))
     \<and> tot' = snd (spec_greedy t tot (map (\<lambda>i. availableRam (P ! i)) is))
     \<and> map (\<lambda>i. availableRam (P' ! i)) is
         = map2 spec_remaining (map (\<lambda>i. availableRam (P ! i)) is)
             (fst (spec_greedy t tot (map (\<lambda>i. availableRam (P ! i)) is)))"
proof (induction "is" arbitrary: P sa tot)
  case Nil
  then show ?case by simp
next
  case (Cons i rest)
  have d: "distinct (map (\<lambda>k. hostname (P ! k)) rest)"
    and inotin: "hostname (P ! i) \<notin> (\<lambda>k. hostname (P ! k)) ` set rest"
    using Cons.prems(2) by auto
  have irest: "i \<notin> set rest" using inotin by auto
  have keys: "\<forall>k\<in>set rest. hostname (P ! k) \<notin> fst ` set sa"
    and key0: "hostname (P ! i) \<notin> fst ` set sa"
    using Cons.prems(3) by simp_all
  have len: "\<forall>k\<in>set rest. k < length P" and ilen: "i < length P"
    using Cons.prems(4) by simp_all
  define a where "a = availableRam (P ! i)"
  define as where "as = map (\<lambda>k. availableRam (P ! k)) rest"
  define hs where "hs = map (\<lambda>k. hostname (P ! k)) rest"
  define v where "v = spec_take t tot a"
  show ?case
  proof (cases "t \<le> tot")
    case True
    with Cons.prems(1) have res: "P' = P" "sa' = sa" "tot' = tot"
      by (simp_all add: distribute_Cons del: distribute.simps)
    have g: "spec_greedy t tot (map (\<lambda>k. availableRam (P ! k)) (i # rest))
               = (map (\<lambda>_. 0) (map (\<lambda>k. availableRam (P ! k)) (i # rest)), tot)"
      using True by (rule spec_greedy_done)
    show ?thesis
      unfolding res g fst_conv snd_conv
      by (simp only: filter_zip_zero map2_remaining_zero append_Nil2 simp_thms)
  next
    case False
    show ?thesis
    proof (cases "0 < v")
      case take: True
      define P1 where "P1 = P[i := (P ! i)\<lparr>availableRam := fl (a - v)\<rparr>]"
      define sa1 where "sa1 = recordSet (hostname (P ! i)) v sa"
      from Cons.prems(1) False take
      have run: "distribute rest t P1 sa1 (fl (tot + v)) = (P', sa', tot')"
        by (simp add: distribute_Cons Let_def v_def a_def P1_def sa1_def del: distribute.simps)
      have hn: "\<And>k. hostname (P1 ! k) = hostname (P ! k)"
        by (simp add: P1_def hostname_nth_update)
      have av: "map (\<lambda>k. availableRam (P1 ! k)) rest = as"
        unfolding as_def
      proof (rule map_cong [OF refl])
        fix k assume "k \<in> set rest"
        then have "k \<noteq> i" using irest by auto
        then show "availableRam (P1 ! k) = availableRam (P ! k)" by (simp add: P1_def)
      qed
      have sa1: "sa1 = sa @ filter (\<lambda>(h, v). 0 < v \<and> h \<noteq> ''__proto__'') [(hostname (P ! i), v)]"
        unfolding sa1_def using take key0 by (rule recordSet_fresh)
      have d1: "distinct (map (\<lambda>k. hostname (P1 ! k)) rest)" using d by (simp add: hn)
      have keys1: "\<forall>k\<in>set rest. hostname (P1 ! k) \<notin> fst ` set sa1"
      proof
        fix k assume k: "k \<in> set rest"
        have "hostname (P ! k) \<in> (\<lambda>k. hostname (P ! k)) ` set rest" using k by (rule imageI)
        with inotin have "hostname (P ! k) \<noteq> hostname (P ! i)" by auto
        with keys k show "hostname (P1 ! k) \<notin> fst ` set sa1"
          by (auto simp: hn sa1)
      qed
      have len1: "\<forall>k\<in>set rest. k < length P1" using len by (simp add: P1_def)
      define r where "r = spec_greedy t (fl (tot + v)) as"
      from Cons.IH [OF run d1 keys1 len1]
      have ih: "sa' = sa1 @ filter (\<lambda>(h, v). 0 < v \<and> h \<noteq> ''__proto__'') (zip hs (fst r))"
               "tot' = snd r"
               "map (\<lambda>k. availableRam (P' ! k)) rest = map2 spec_remaining as (fst r)"
        by (simp_all add: hn av r_def hs_def)
      have g: "spec_greedy t tot (map (\<lambda>k. availableRam (P ! k)) (i # rest)) = (v # fst r, snd r)"
        using take by (simp add: Let_def case_prod_beta v_def a_def as_def r_def)
      have "P' ! i = P1 ! i" using run irest by (rule distribute_pool_frame)
      then have hd: "availableRam (P' ! i) = spec_remaining a v"
        using ilen take by (simp add: P1_def spec_remaining_def)
      show ?thesis
        unfolding g fst_conv snd_conv
        using ih hd take by (simp add: sa1 a_def as_def hs_def)
    next
      case skip: False
      then have v0: "v = 0" by (simp add: v_def spec_take_def split: if_splits)
      from Cons.prems(1) False skip
      have run: "distribute rest t P sa tot = (P', sa', tot')"
        by (simp add: distribute_Cons Let_def v_def a_def del: distribute.simps)
      define r where "r = spec_greedy t tot as"
      from Cons.IH [OF run d keys len]
      have ih: "sa' = sa @ filter (\<lambda>(h, v). 0 < v \<and> h \<noteq> ''__proto__'') (zip hs (fst r))"
               "tot' = snd r"
               "map (\<lambda>k. availableRam (P' ! k)) rest = map2 spec_remaining as (fst r)"
        by (simp_all add: r_def hs_def as_def)
      have g: "spec_greedy t tot (map (\<lambda>k. availableRam (P ! k)) (i # rest)) = (0 # fst r, snd r)"
        using skip v0 by (simp add: Let_def case_prod_beta v_def a_def as_def r_def)
      have "P' ! i = P ! i" using run irest by (rule distribute_pool_frame)
      then have hd: "availableRam (P' ! i) = spec_remaining a 0"
        by (simp add: spec_remaining_def a_def)
      show ?thesis
        unfolding g fst_conv snd_conv
        using ih hd by (simp add: a_def as_def hs_def)
    qed
  qed
qed

lemma sortedPool_hostnames:
  assumes "distinct (map hostname pool)"
  shows "distinct (map (\<lambda>i. hostname (pool ! i)) (sortedPool request pool))"
proof -
  have "inj_on (\<lambda>i. hostname (pool ! i)) {..< length pool}"
  proof (rule inj_onI)
    fix i j assume "i \<in> {..< length pool}" "j \<in> {..< length pool}"
      and "hostname (pool ! i) = hostname (pool ! j)"
    then show "i = j"
      using assms by (simp add: distinct_conv_nth) (metis nth_map length_map)
  qed
  then show ?thesis
    by (simp add: distinct_map sortedPool_distinct sortedPool_set)
qed

lemma allocateToModule_spec:
  assumes d: "distinct (map hostname pool)"
      and a: "allocateToModule request pool = (Some a, pool')"
  shows "serverAllocations a
           = filter (\<lambda>(h, v). 0 < v \<and> h \<noteq> ''__proto__'')
               (zip (map hostname (map ((!) pool) (sortedPool request pool)))
                    (fst (spec_greedy (maxRam request) 0
                            (map availableRam (map ((!) pool) (sortedPool request pool))))))"
    and "allocatedRam a
           = snd (spec_greedy (maxRam request) 0
                    (map availableRam (map ((!) pool) (sortedPool request pool))))"
    and "map availableRam (map ((!) pool') (sortedPool request pool))
           = map2 spec_remaining (map availableRam (map ((!) pool) (sortedPool request pool)))
               (fst (spec_greedy (maxRam request) 0
                       (map availableRam (map ((!) pool) (sortedPool request pool)))))"
    and "map blank pool' = map blank pool"
    and "allocModuleName a = moduleName request"
    and "minRam request \<le> allocatedRam a"
proof -
  obtain P' sa tot
    where run: "distribute (sortedPool request pool) (maxRam request) pool [] 0 = (P', sa, tot)"
    by (cases "distribute (sortedPool request pool) (maxRam request) pool [] 0") auto
  from a have res: "serverAllocations a = sa" "allocatedRam a = tot" "pool' = P'"
      "allocModuleName a = moduleName request" "minRam request \<le> tot"
    by (auto simp: allocateToModule_def run split: if_splits)
  have len: "\<forall>i\<in>set (sortedPool request pool). i < length pool"
    by (simp add: sortedPool_set)
  from distribute_spec [OF run sortedPool_hostnames [OF d] _ len]
  have s: "sa = filter (\<lambda>(h, v). 0 < v \<and> h \<noteq> ''__proto__'')
                  (zip (map (\<lambda>i. hostname (pool ! i)) (sortedPool request pool))
                       (fst (spec_greedy (maxRam request) 0
                               (map (\<lambda>i. availableRam (pool ! i)) (sortedPool request pool)))))"
    and t: "tot = snd (spec_greedy (maxRam request) 0
                         (map (\<lambda>i. availableRam (pool ! i)) (sortedPool request pool)))"
    and p: "map (\<lambda>i. availableRam (P' ! i)) (sortedPool request pool)
              = map2 spec_remaining (map (\<lambda>i. availableRam (pool ! i)) (sortedPool request pool))
                  (fst (spec_greedy (maxRam request) 0
                          (map (\<lambda>i. availableRam (pool ! i)) (sortedPool request pool))))"
    by simp_all
  show "serverAllocations a
           = filter (\<lambda>(h, v). 0 < v \<and> h \<noteq> ''__proto__'')
               (zip (map hostname (map ((!) pool) (sortedPool request pool)))
                    (fst (spec_greedy (maxRam request) 0
                            (map availableRam (map ((!) pool) (sortedPool request pool))))))"
    using s by (simp add: res comp_def)
  show "allocatedRam a
           = snd (spec_greedy (maxRam request) 0
                    (map availableRam (map ((!) pool) (sortedPool request pool))))"
    using t by (simp add: res comp_def)
  show "map availableRam (map ((!) pool') (sortedPool request pool))
           = map2 spec_remaining (map availableRam (map ((!) pool) (sortedPool request pool)))
               (fst (spec_greedy (maxRam request) 0
                       (map availableRam (map ((!) pool) (sortedPool request pool)))))"
    using p by (simp add: res comp_def)
  show "map blank pool' = map blank pool"
    unfolding res using run by (rule distribute_blank)
  show "allocModuleName a = moduleName request" by (rule res)
  show "minRam request \<le> allocatedRam a" using res by simp
qed

subsection \<open>What holds of every call\<close>

text \<open>
  An allocation that is returned meets the floor of its request, and a call changes
  nothing of the pool but the available RAM of its servers.
\<close>

lemma rollback_blank: "map blank (rollback es P) = map blank P"
proof (induction es arbitrary: P)
  case Nil
  then show ?case by simp
next
  case (Cons e es)
  obtain h a where e: "e = (h, a)" by (cases e)
  show ?case
    by (cases "findServer h P") (simp_all add: e Cons.IH)
qed

lemma allocateToModule_floor:
  assumes "fst (allocateToModule request pool) = Some a"
  shows "minRam request \<le> allocatedRam a"
proof -
  obtain P' sa tot
    where run: "distribute (sortedPool request pool) (maxRam request) pool [] 0 = (P', sa, tot)"
    by (cases "distribute (sortedPool request pool) (maxRam request) pool [] 0") auto
  from assms show ?thesis
    by (cases "tot < minRam request") (auto simp: allocateToModule_def run)
qed

lemma allocateToModule_blank: "map blank (snd (allocateToModule request pool)) = map blank pool"
proof -
  obtain P' sa tot
    where run: "distribute (sortedPool request pool) (maxRam request) pool [] 0 = (P', sa, tot)"
    by (cases "distribute (sortedPool request pool) (maxRam request) pool [] 0") auto
  from distribute_blank [OF run] show ?thesis
    by (simp add: allocateToModule_def run rollback_blank)
qed


subsection \<open>Pools built by buildResourcePool\<close>

lemma poolLoop_distinct_aux:
  assumes "poolLoop g reserve visited queue pool = Some result"
  shows "distinct (map hostname pool) \<longrightarrow> hostname ` set pool \<subseteq> set visited
           \<longrightarrow> distinct (map hostname result)"
proof (rule poolLoop.raw_induct [where P = "\<lambda>g reserve visited queue pool result.
           distinct (map hostname pool) \<longrightarrow> hostname ` set pool \<subseteq> set visited
             \<longrightarrow> distinct (map hostname result)", OF _ assms])
  fix loop g reserve visited queue pool result
  assume IH0: "\<And>g reserve visited queue pool result.
      loop g reserve visited queue pool = Some result \<Longrightarrow>
      distinct (map hostname pool) \<longrightarrow> hostname ` set pool \<subseteq> set visited
        \<longrightarrow> distinct (map hostname result)"
    and body: "(case queue of
        [] \<Rightarrow> Some pool
      | h # rest \<Rightarrow>
          if h \<in> set visited then loop g reserve visited rest pool
          else
            let visited' = visited @ [h];
                queue' = rest @ filter (\<lambda>n. n \<notin> set visited') (scan g h)
            in if \<not> hasRootAccess g h then loop g reserve visited' queue' pool
               else
                 let total = serverMaxRam g h;
                     used = serverUsedRam g h;
                     home = (h = ''home'');
                     avail0 = fl (total - used);
                     avail = (if home then max 0 (fl (avail0 - reserve)) else avail0)
                 in loop g reserve visited' queue'
                      (if total > 0
                       then pool @ [\<lparr>hostname = h, totalRam = total, usedRam = used,
                                     availableRam = avail, isHome = home,
                                     isPurchased = (h \<in> set (nsPurchasedServers g))\<rparr>]
                       else pool)) = Some result"
  note IH = IH0 [rule_format]
  show "distinct (map hostname pool) \<longrightarrow> hostname ` set pool \<subseteq> set visited
          \<longrightarrow> distinct (map hostname result)"
  proof (intro impI)
    assume d: "distinct (map hostname pool)" and v: "hostname ` set pool \<subseteq> set visited"
    show "distinct (map hostname result)"
    proof (cases queue)
      case Nil
      with body d show ?thesis by simp
    next
      case (Cons h rest)
      show ?thesis
      proof (cases "h \<in> set visited")
        case True
        with body Cons have "loop g reserve visited rest pool = Some result" by simp
        from IH [OF this d v] show ?thesis .
      next
        case False
        then have fresh: "h \<notin> hostname ` set pool" using v by auto
        have v': "hostname ` set pool \<subseteq> set (visited @ [h])" using v by auto
        let ?queue = "rest @ filter (\<lambda>n. n \<notin> set (visited @ [h])) (scan g h)"
        show ?thesis
        proof (cases "hasRootAccess g h \<and> serverMaxRam g h > 0")
          case no: False
          with body Cons False
          have "loop g reserve (visited @ [h]) ?queue pool = Some result"
            by (cases "hasRootAccess g h") (simp_all add: Let_def)
          from IH [OF this d v'] show ?thesis .
        next
          case yes: True
          define s where "s = \<lparr>hostname = h, totalRam = serverMaxRam g h, usedRam = serverUsedRam g h,
                 availableRam = (if h = ''home''
                                 then max 0 (fl (fl (serverMaxRam g h - serverUsedRam g h) - reserve))
                                 else fl (serverMaxRam g h - serverUsedRam g h)),
                 isHome = (h = ''home''), isPurchased = (h \<in> set (nsPurchasedServers g))\<rparr>"
          from body Cons False yes
          have run: "loop g reserve (visited @ [h]) ?queue (pool @ [s]) = Some result"
            by (simp add: Let_def s_def)
          have d1: "distinct (map hostname (pool @ [s]))" using d fresh by (simp add: s_def)
          have v1: "hostname ` set (pool @ [s]) \<subseteq> set (visited @ [h])" using v by (auto simp: s_def)
          from IH [OF run d1 v1] show ?thesis .
        qed
      qed
    qed
  qed
qed

lemma buildResourcePool_distinct:
  assumes "buildResourcePool g reserve = Some pool"
  shows "distinct (map hostname pool)"
proof -
  from assms obtain raw where raw: "poolLoop g reserve [] [''home''] [] = Some raw"
    and pool: "pool = sortBy (\<lambda>a b. availableRam b - availableRam a) raw"
    by (auto simp: buildResourcePool_def)
  have "distinct (map hostname raw)"
    using poolLoop_distinct_aux [OF raw] by simp
  moreover have "mset (map hostname pool) = mset (map hostname raw)"
    unfolding pool by (simp add: mset_sortBy)
  ultimately show ?thesis by (metis mset_eq_imp_distinct_iff)
qed

lemma poolLoop_returns:
  assumes fin: "finite V" and closed: "\<forall>h\<in>V. set (scan g h) \<subseteq> V"
  shows "set visited \<subseteq> V \<Longrightarrow> set queue \<subseteq> V \<Longrightarrow>
           \<exists>r. poolLoop g reserve visited queue pool = Some r"
proof (induction "card (V - set visited)" arbitrary: visited queue pool rule: less_induct)
  case less
  show ?case using less.prems
  proof (induction queue)
    case Nil
    then show ?case by (simp add: poolLoop.simps)
  next
    case (Cons h rest)
    show ?case
    proof (cases "h \<in> set visited")
      case True
      from Cons.IH [OF Cons.prems(1)] Cons.prems(2)
      obtain r where "poolLoop g reserve visited rest pool = Some r" by auto
      then have "poolLoop g reserve visited (h # rest) pool = Some r"
        using True by (subst poolLoop.simps) simp
      then show ?thesis by blast
    next
      case False
      define visited' where "visited' = visited @ [h]"
      define queue' where "queue' = rest @ filter (\<lambda>n. n \<notin> set visited') (scan g h)"
      have cur: "h \<in> V" using Cons.prems(2) by simp
      have v': "set visited' \<subseteq> V" using Cons.prems(1) cur by (simp add: visited'_def)
      have q': "set queue' \<subseteq> V" using Cons.prems(2) closed cur by (auto simp: queue'_def)
      have "V - set visited' \<subset> V - set visited"
        using False cur by (auto simp: visited'_def)
      then have "card (V - set visited') < card (V - set visited)"
        using fin by (intro psubset_card_mono) simp_all
      from less.hyps [OF this v' q']
      have next_returns: "\<And>pool'. \<exists>r. poolLoop g reserve visited' queue' pool' = Some r" .
      show ?thesis
        using False next_returns
        by (subst poolLoop.simps) (simp add: Let_def visited'_def queue'_def)
    qed
  qed
qed

text \<open>
  On a finite network that is closed under \<open>ns.scan\<close>, \<open>buildResourcePool\<close> returns a pool,
  and no two servers of the pool have the same hostname.
\<close>

lemma buildResourcePool_returns:
  assumes "finite V" and "''home'' \<in> V" and "\<forall>h\<in>V. set (scan g h) \<subseteq> V"
  shows "\<exists>pool. buildResourcePool g reserve = Some pool \<and> distinct (map hostname pool)"
proof -
  from poolLoop_returns [OF assms(1,3), of "[]" "[''home'']" reserve "[]"] assms(2)
  obtain raw where "poolLoop g reserve [] [''home''] [] = Some raw" by auto
  then have "buildResourcePool g reserve
               = Some (sortBy (\<lambda>a b. availableRam b - availableRam a) raw)"
    by (simp add: buildResourcePool_def)
  with buildResourcePool_distinct show ?thesis by blast
qed

section \<open>Properties of the network scan\<close>

text \<open>
  On a finite network that is closed under \<open>ns.scan\<close> the breadth-first loop returns: every
  round either drops a queue entry that is already discovered or discovers a server of the
  network that was not yet discovered. It returns, each once, the servers that can be
  reached from the discovered and the queued ones, provided the neighbours of every
  discovered server are discovered or queued.
\<close>

lemma rtrancl_Image_closed:
  assumes "\<forall>d\<in>S. \<forall>n. (d, n) \<in> R \<longrightarrow> n \<in> S"
  shows "R\<^sup>* `` S = S"
proof
  show "R\<^sup>* `` S \<subseteq> S"
  proof
    fix x assume "x \<in> R\<^sup>* `` S"
    then obtain s where s: "s \<in> S" and sx: "(s, x) \<in> R\<^sup>*" by auto
    from sx s show "x \<in> S"
      by (induction rule: rtrancl_induct) (use assms in auto)
  qed
  show "S \<subseteq> R\<^sup>* `` S" by auto
qed

lemma rtrancl_Image_absorb:
  assumes "T \<subseteq> R\<^sup>* `` S"
  shows "R\<^sup>* `` (S \<union> T) = R\<^sup>* `` S"
proof
  show "R\<^sup>* `` (S \<union> T) \<subseteq> R\<^sup>* `` S"
  proof
    fix x assume "x \<in> R\<^sup>* `` (S \<union> T)"
    then obtain y where y: "y \<in> S \<union> T" and yx: "(y, x) \<in> R\<^sup>*" by auto
    show "x \<in> R\<^sup>* `` S"
    proof (cases "y \<in> S")
      case True
      with yx show ?thesis by auto
    next
      case False
      with y assms obtain s where "s \<in> S" "(s, y) \<in> R\<^sup>*" by auto
      with yx have "s \<in> S" "(s, x) \<in> R\<^sup>*" by auto
      then show ?thesis by auto
    qed
  qed
  show "R\<^sup>* `` S \<subseteq> R\<^sup>* `` (S \<union> T)" by auto
qed

lemma scanLoop_returns:
  assumes fin: "finite V" and closed: "\<forall>h\<in>V. set (neighbours h) \<subseteq> V"
  shows "set discovered \<subseteq> V \<Longrightarrow> set queue \<subseteq> V \<Longrightarrow> distinct discovered \<Longrightarrow>
         (\<forall>d\<in>set discovered. set (neighbours d) \<subseteq> set discovered \<union> set queue) \<Longrightarrow>
           \<exists>r. scanLoop neighbours discovered queue = Some r \<and> set r \<subseteq> V \<and> distinct r
                 \<and> set r = {(a, b). b \<in> set (neighbours a)}\<^sup>* `` (set discovered \<union> set queue)"
proof (induction "card (V - set discovered)" arbitrary: discovered queue rule: less_induct)
  case less
  let ?R = "{(a, b). b \<in> set (neighbours a)}"
  show ?case using less.prems
  proof (induction queue)
    case Nil
    have "?R\<^sup>* `` set discovered = set discovered"
      using Nil.prems(4) by (intro rtrancl_Image_closed) auto
    with Nil.prems show ?case by (simp add: scanLoop.simps)
  next
    case (Cons current rest)
    show ?case
    proof (cases "current \<in> set discovered")
      case True
      have inv: "\<forall>d\<in>set discovered. set (neighbours d) \<subseteq> set discovered \<union> set rest"
        using Cons.prems(4) True by auto
      from Cons.IH [OF Cons.prems(1) _ Cons.prems(3) inv] Cons.prems(2)
      obtain r where r: "scanLoop neighbours discovered rest = Some r" "set r \<subseteq> V" "distinct r"
          "set r = ?R\<^sup>* `` (set discovered \<union> set rest)"
        by auto
      have "scanLoop neighbours discovered (current # rest) = Some r"
        using True r(1) by (subst scanLoop.simps) simp
      moreover have "set discovered \<union> set (current # rest) = set discovered \<union> set rest"
        using True by auto
      ultimately show ?thesis using r(2,3,4) by simp
    next
      case False
      define discovered' where "discovered' = discovered @ [current]"
      define queue' where
        "queue' = rest @ filter (\<lambda>n. n \<notin> set discovered') (neighbours current)"
      have cur: "current \<in> V" using Cons.prems(2) by simp
      have d': "set discovered' \<subseteq> V" using Cons.prems(1) cur by (simp add: discovered'_def)
      have q': "set queue' \<subseteq> V"
        using Cons.prems(2) closed cur by (auto simp: queue'_def)
      have dist: "distinct discovered'"
        using Cons.prems(3) False by (simp add: discovered'_def)
      have inv: "\<forall>d\<in>set discovered'. set (neighbours d) \<subseteq> set discovered' \<union> set queue'"
        using Cons.prems(4) by (auto simp: discovered'_def queue'_def)
      have "V - set discovered' \<subset> V - set discovered"
        using False cur by (auto simp: discovered'_def)
      then have "card (V - set discovered') < card (V - set discovered)"
        using fin by (intro psubset_card_mono) simp_all
      from less.hyps [OF this d' q' dist inv]
      obtain r where r: "scanLoop neighbours discovered' queue' = Some r" "set r \<subseteq> V" "distinct r"
          "set r = ?R\<^sup>* `` (set discovered' \<union> set queue')"
        by auto
      have run: "scanLoop neighbours discovered (current # rest) = Some r"
        using False r(1) by (subst scanLoop.simps) (simp add: discovered'_def queue'_def)
      define S where "S = set discovered \<union> set (current # rest)"
      define T where "T = set (filter (\<lambda>n. n \<notin> set discovered') (neighbours current))"
      have "T \<subseteq> ?R `` {current}" by (auto simp: T_def)
      also have "\<dots> \<subseteq> ?R\<^sup>* `` S" by (auto simp: S_def)
      finally have "?R\<^sup>* `` (S \<union> T) = ?R\<^sup>* `` S" by (rule rtrancl_Image_absorb)
      moreover have "set discovered' \<union> set queue' = S \<union> T"
        by (auto simp: discovered'_def queue'_def S_def T_def)
      ultimately have "set r = ?R\<^sup>* `` (set discovered \<union> set (current # rest))"
        using r(4) by (simp add: S_def)
      with run r(2,3) show ?thesis by simp
    qed
  qed
qed

lemma scanEntireNetwork_returns:
  assumes "finite V" and "''home'' \<in> V" and "\<forall>h\<in>V. set (scan g h) \<subseteq> V"
  shows "\<exists>cur. scanEntireNetwork g = Some cur \<and> set cur \<subseteq> V \<and> distinct cur
           \<and> set cur = {(a, b). b \<in> set (scan g a)}\<^sup>* `` {''home''}"
proof -
  from scanLoop_returns [OF assms(1,3), of "[]" "[''home'']"] assms(2)
  show ?thesis by (simp add: scanEntireNetwork_def)
qed

section \<open>Properties of the registry\<close>

text \<open>
  A registration whose write succeeds stores the record built from its arguments and
  leaves the other records alone, unless the name is \<open>__proto__\<close> and the table has no own
  property of that name. A registration whose write fails returns false; where there is no
  file, its record stays in the table of \<open>DEFAULT_REGISTRY\<close> all the same, and the next
  load hands it out.
\<close>

lemma registerModule_stores:
  assumes "\<not> writeFails ns" and "n \<noteq> ''__proto__'' \<or> modules (loadRegistry ns) n \<noteq> None"
  shows "fst (registerModule ns n path (Some c) prio cPort sPort)"
    and "modules (loadRegistry (snd (registerModule ns n path (Some c) prio cPort sPort))) n
           = Some \<lparr>name = n, scriptPath = path, config = c, modulePriority = prio,
                    status = Stopped, pid = None, controlPort = cPort, statusPort = sPort,
                    lastStatusUpdate = clock ns,
                    ramAllocation = \<lparr>requested = requestedRam c, allocated = 0, actual = 0\<rparr>\<rparr>"
    and "m \<noteq> n \<Longrightarrow>
           modules (loadRegistry (snd (registerModule ns n path (Some c) prio cPort sPort))) m
             = modules (loadRegistry ns) m"
  using assms
  by (auto simp: registerModule_def loadRegistry_def readState_def saveRegistry_def objSet_def Let_def)

lemma registerModule_failed_write:
  assumes "writeFails ns"
  shows "\<not> fst (registerModule ns n path cfg prio cPort sPort)"
    and "registryFile (snd (registerModule ns n path cfg prio cPort sPort)) = registryFile ns"
    and "registryFile ns = None \<Longrightarrow> n \<noteq> ''__proto__'' \<Longrightarrow>
           modules (loadRegistry (snd (registerModule ns n path (Some c) prio cPort sPort))) n
             = Some \<lparr>name = n, scriptPath = path, config = c, modulePriority = prio,
                      status = Stopped, pid = None, controlPort = cPort, statusPort = sPort,
                      lastStatusUpdate = clock ns,
                      ramAllocation = \<lparr>requested = requestedRam c, allocated = 0, actual = 0\<rparr>\<rparr>"
  using assms
  by (auto simp: registerModule_def loadRegistry_def readState_def saveRegistry_def objSet_def
        Let_def split: option.splits)

section \<open>Properties of the ports\<close>

lemma sendMessage_queue:
  assumes "port \<noteq> 0" "1 \<le> maxQueueSize ports" "length (portData ports port) \<le> maxQueueSize ports"
  shows "portData (snd (sendMessage ports port m)) port
           = (if portFull ports port then [] else portData ports port)
             @ [\<lparr>timestamp = now ports, data = m\<rparr>]"
  using assms
  by (auto simp: sendMessage_def portWrite_def portClear_def portFull_def Let_def)

lemma sendMessage_fst: "port \<noteq> 0 \<Longrightarrow> fst (sendMessage ports port m)"
  by (simp add: sendMessage_def Let_def)

lemma sendMessage_maxQueueSize:
  "maxQueueSize (snd (sendMessage ports port m)) = maxQueueSize ports"
  by (simp add: sendMessage_def portWrite_def portClear_def Let_def)

lemma sendMessage_capacity_one:
  assumes "port \<noteq> 0" "maxQueueSize ports = 1" "length (portData ports port) \<le> 1"
  shows "portData (snd (sendMessage ports port m)) port = [\<lparr>timestamp = now ports, data = m\<rparr>]"
proof -
  have "portFull ports port \<or> portData ports port = []"
    using assms(2,3) by (cases "portData ports port") (auto simp: portFull_def)
  then show ?thesis
    using sendMessage_queue [of port ports m] assms by auto
qed


section \<open>The allocator's claims\<close>

text \<open>
  C1 fails in the code. The pool \<open>[{home, 69.41}, {n1, 1.08}]\<close> meets the requests
  \<open>low {priority 1, min 1, max 100}\<close> and \<open>high {priority 10, min 28.91, max 28.91}\<close>: the
  priorities differ, the demand exceeds the pool, \<open>high\<close> is processed first and the pool
  holds more than its \<open>maxRam\<close>. The loop takes 1.08 from \<open>n1\<close> and the rounded rest from
  \<open>home\<close>, and the rounded sum of the two takes is one unit in the last place below
  28.91: the floor is missed, the takes are rolled back, and \<open>high\<close> receives nothing while
  \<open>low\<close> receives the whole pool.
\<close>

theorem priority_order_rounding:
  "sortedRequests [exRequest ''low'' 1 1 100 None, exRequest ''high'' 10 (fl 28.91) (fl 28.91) None]
     = [exRequest ''high'' 10 (fl 28.91) (fl 28.91) None, exRequest ''low'' 1 1 100 None]
   \<and> maxRam (exRequest ''high'' 10 (fl 28.91) (fl 28.91) None)
       < poolSupply [exServer ''home'' (fl 69.41) True, exServer ''n1'' (fl 1.08) False]
   \<and> totalTaken (exRequest ''high'' 10 (fl 28.91) (fl 28.91) None)
         [exServer ''home'' (fl 69.41) True, exServer ''n1'' (fl 1.08) False]
       = fl 28.91 - 1 / 2 ^ 48
   \<and> fst (allocateToModule (exRequest ''high'' 10 (fl 28.91) (fl 28.91) None)
              [exServer ''home'' (fl 69.41) True, exServer ''n1'' (fl 1.08) False])
       = None
   \<and> allocateResources [exServer ''home'' (fl 69.41) True, exServer ''n1'' (fl 1.08) False]
        [exRequest ''low'' 1 1 100 None, exRequest ''high'' 10 (fl 28.91) (fl 28.91) None]
       = [\<lparr>allocModuleName = ''low'', allocatedRam = fl (fl 1.08 + fl 69.41),
           serverAllocations = [(''n1'', fl 1.08), (''home'', fl 69.41)]\<rparr>]"
  by (simp add: allocateResources_def optimizeAllocation_def sortedRequests_def sortBy_def
        allocateToModule_def totalTaken_def sortedPool_def poolComparator_def cmpDefault_def
        poolSupply_def allocatedOn_def entry_def exServer_def exRequest_def recordSet_def Let_def
        upt_rec_numeral fl_def binade_def roundEven_def pow2_def bitLength.simps)

text \<open>
  C2 fails in the code. The pool \<open>[{home, 669.83}, {n1, 108.07}]\<close> meets the requests
  \<open>a {priority 3, min 4, max 256}\<close>, \<open>b {priority 2, min 2, max 64}\<close> and
  \<open>c {priority 1, min 8, max 512}\<close>. What \<open>home\<close> has left is rounded after each take, and the
  three entries under \<open>home\<close> add up to more than the 669.83 that \<open>home\<close> had in the input
  pool.
\<close>

theorem over_commitment_rounding:
  "allocateResources [exServer ''home'' (fl 669.83) True, exServer ''n1'' (fl 108.07) False]
     [exRequest ''a'' 3 4 256 None, exRequest ''b'' 2 2 64 None, exRequest ''c'' 1 8 512 None]
     = [\<lparr>allocModuleName = ''a'', allocatedRam = 256,
         serverAllocations = [(''n1'', fl 108.07), (''home'', fl (256 - fl 108.07))]\<rparr>,
        \<lparr>allocModuleName = ''b'', allocatedRam = 64, serverAllocations = [(''home'', 64)]\<rparr>,
        \<lparr>allocModuleName = ''c'',
         allocatedRam = fl (fl (fl 669.83 - fl (256 - fl 108.07)) - 64),
         serverAllocations = [(''home'', fl (fl (fl 669.83 - fl (256 - fl 108.07)) - 64))]\<rparr>]
   \<and> allocatedOn ''home''
         (allocateResources [exServer ''home'' (fl 669.83) True, exServer ''n1'' (fl 108.07) False]
            [exRequest ''a'' 3 4 256 None, exRequest ''b'' 2 2 64 None, exRequest ''c'' 1 8 512 None])
       = availableRam (exServer ''home'' (fl 669.83) True) + 1 / 2 ^ 44
   \<and> availableRam (exServer ''home'' (fl 669.83) True)
       < allocatedOn ''home''
           (allocateResources [exServer ''home'' (fl 669.83) True, exServer ''n1'' (fl 108.07) False]
              [exRequest ''a'' 3 4 256 None, exRequest ''b'' 2 2 64 None, exRequest ''c'' 1 8 512 None])"
  by (simp add: allocateResources_def optimizeAllocation_def sortedRequests_def sortBy_def
        allocateToModule_def totalTaken_def sortedPool_def poolComparator_def cmpDefault_def
        poolSupply_def allocatedOn_def entry_def exServer_def exRequest_def recordSet_def Let_def
        upt_rec_numeral fl_def binade_def roundEven_def pow2_def bitLength.simps)

text \<open>
  C3 fails in the code in its upper bound. The pool \<open>[{home, 9.02}, {n1, 2.14}]\<close> meets the
  request \<open>{min 7.22, max 7.22}\<close>: the loop takes 2.14 from \<open>n1\<close> and the rounded rest from
  \<open>home\<close>, and the rounded sum of the two takes, which is the \<open>allocatedRam\<close> returned, is
  one unit in the last place above \<open>maxRam\<close>.
\<close>

theorem ceiling_exceeded_rounding:
  "fst (allocateToModule (exRequest ''m'' 10 (fl 7.22) (fl 7.22) None)
          [exServer ''home'' (fl 9.02) True, exServer ''n1'' (fl 2.14) False])
     = Some \<lparr>allocModuleName = ''m'', allocatedRam = fl 7.22 + 1 / 2 ^ 50,
              serverAllocations = [(''n1'', fl 2.14), (''home'', fl (fl 7.22 - fl 2.14))]\<rparr>
   \<and> maxRam (exRequest ''m'' 10 (fl 7.22) (fl 7.22) None)
       < totalTaken (exRequest ''m'' 10 (fl 7.22) (fl 7.22) None)
           [exServer ''home'' (fl 9.02) True, exServer ''n1'' (fl 2.14) False]"
  by (simp add: allocateResources_def optimizeAllocation_def sortedRequests_def sortBy_def
        allocateToModule_def totalTaken_def sortedPool_def poolComparator_def cmpDefault_def
        poolSupply_def allocatedOn_def entry_def exServer_def exRequest_def recordSet_def Let_def
        upt_rec_numeral fl_def binade_def roundEven_def pow2_def bitLength.simps)

text \<open>
  C4 fails in the code. The pool \<open>[{home, 92.61}, {n1, 7.01}]\<close> meets the request
  \<open>{min 26.02, max 26.02}\<close>: the total taken is below the floor, the request yields no
  allocation, and the rollback adds to \<open>home\<close> what was taken from it; the rounded sum is
  one unit in the last place below the 92.61 that \<open>home\<close> had before. In the scenario of
  the specification, pool \<open>[{n1, 10}]\<close> and request \<open>{min 20, max 50}\<close>, the numbers are
  exact and \<open>n1\<close> is back at 10.
\<close>

theorem rollback_rounding:
  "totalTaken (exRequest ''m'' 10 (fl 26.02) (fl 26.02) None)
       [exServer ''home'' (fl 92.61) True, exServer ''n1'' (fl 7.01) False]
     < minRam (exRequest ''m'' 10 (fl 26.02) (fl 26.02) None)
   \<and> allocateToModule (exRequest ''m'' 10 (fl 26.02) (fl 26.02) None)
        [exServer ''home'' (fl 92.61) True, exServer ''n1'' (fl 7.01) False]
       = (None, [(exServer ''home'' (fl 92.61) True)\<lparr>availableRam := fl 92.61 - 1 / 2 ^ 46\<rparr>,
                 exServer ''n1'' (fl 7.01) False])
   \<and> snd (allocateToModule (exRequest ''m'' 10 (fl 26.02) (fl 26.02) None)
              [exServer ''home'' (fl 92.61) True, exServer ''n1'' (fl 7.01) False])
       \<noteq> [exServer ''home'' (fl 92.61) True, exServer ''n1'' (fl 7.01) False]
   \<and> allocateToModule (exRequest ''m'' 10 20 50 None) [exServer ''n1'' 10 False]
       = (None, [exServer ''n1'' 10 False])
   \<and> allocateResources [exServer ''n1'' 10 False] [exRequest ''m'' 10 20 50 None] = []"
  by (simp add: allocateResources_def optimizeAllocation_def sortedRequests_def sortBy_def
        allocateToModule_def totalTaken_def sortedPool_def poolComparator_def cmpDefault_def
        poolSupply_def allocatedOn_def entry_def exServer_def exRequest_def recordSet_def Let_def
        upt_rec_numeral fl_def binade_def roundEven_def pow2_def bitLength.simps)

text \<open>
  C5. Without preferred servers the node order is a rearrangement of the pool in which no
  home server precedes another server and, among servers of the same kind, available RAM
  descends. Along that order each server gives \<open>min(remaining need, available)\<close>, in the
  numbers of JavaScript: \<open>serverAllocations\<close> lists the servers that gave something with
  their takes (but for a server named \<open>__proto__\<close>, a key under which the object takes no
  number), \<open>allocatedRam\<close> is the running total, every server that gave something is left
  with the rounded difference of its available RAM and its take, and nothing else of the
  pool changes. For the pool \<open>[{home, avail = 100}, {n1, avail = 50}]\<close> and the request
  \<open>{priority = 10, min = 40, max = 120}\<close> the allocation is \<open>{n1: 50, home: 70}\<close>, total 120,
  and the pool is left as \<open>[{home, avail = 30}, {n1, avail = 0}]\<close>.
\<close>

theorem default_order_greedy:
  "(preferredServers request = None \<or> preferredServers request = Some [] \<longrightarrow>
      (let order = map ((!) pool) (sortedPool request pool)
       in mset order = mset pool
          \<and> sorted_wrt (\<lambda>a b. (isHome a \<longrightarrow> isHome b)
                \<and> (isHome a = isHome b \<longrightarrow> availableRam b \<le> availableRam a)) order
          \<and> (distinct (map hostname pool) \<longrightarrow>
               (\<forall>a pool'. allocateToModule request pool = (Some a, pool') \<longrightarrow>
                  (let greedy = spec_greedy (maxRam request) 0 (map availableRam order)
                   in serverAllocations a
                        = filter (\<lambda>(h, v). 0 < v \<and> h \<noteq> ''__proto__'') (zip (map hostname order) (fst greedy))
                      \<and> allocatedRam a = snd greedy
                      \<and> map availableRam (map ((!) pool') (sortedPool request pool))
                          = map2 spec_remaining (map availableRam order) (fst greedy)
                      \<and> map blank pool' = map blank pool)))))
   \<and> allocateToModule (exRequest ''m1'' 10 40 120 None)
        [exServer ''home'' 100 True, exServer ''n1'' 50 False]
       = (Some \<lparr>allocModuleName = ''m1'', allocatedRam = 120,
                 serverAllocations = [(''n1'', 50), (''home'', 70)]\<rparr>,
          [(exServer ''home'' 100 True)\<lparr>availableRam := 30\<rparr>,
           (exServer ''n1'' 50 False)\<lparr>availableRam := 0\<rparr>])
   \<and> allocateResources [exServer ''home'' 100 True, exServer ''n1'' 50 False]
        [exRequest ''m1'' 10 40 120 None]
       = [\<lparr>allocModuleName = ''m1'', allocatedRam = 120,
           serverAllocations = [(''n1'', 50), (''home'', 70)]\<rparr>]"
proof -
  have ex1: "allocateToModule (exRequest ''m1'' 10 40 120 None)
        [exServer ''home'' 100 True, exServer ''n1'' 50 False]
       = (Some \<lparr>allocModuleName = ''m1'', allocatedRam = 120,
                 serverAllocations = [(''n1'', 50), (''home'', 70)]\<rparr>,
          [(exServer ''home'' 100 True)\<lparr>availableRam := 30\<rparr>,
           (exServer ''n1'' 50 False)\<lparr>availableRam := 0\<rparr>])"
    by (simp add: allocateToModule_def sortedPool_def sortBy_def poolComparator_def cmpDefault_def
          exServer_def exRequest_def recordSet_def Let_def upt_rec_numeral
          fl_def binade_def roundEven_def pow2_def bitLength.simps)
  have ex2: "allocateResources [exServer ''home'' 100 True, exServer ''n1'' 50 False]
        [exRequest ''m1'' 10 40 120 None]
       = [\<lparr>allocModuleName = ''m1'', allocatedRam = 120,
           serverAllocations = [(''n1'', 50), (''home'', 70)]\<rparr>]"
    by (simp add: allocateResources_def optimizeAllocation_def sortedRequests_def sortBy_def ex1)
  have ord: "mset (map ((!) pool) (sortedPool request pool)) = mset pool
          \<and> sorted_wrt (\<lambda>a b. (isHome a \<longrightarrow> isHome b)
                \<and> (isHome a = isHome b \<longrightarrow> availableRam b \<le> availableRam a))
               (map ((!) pool) (sortedPool request pool))"
    if "preferredServers request = None \<or> preferredServers request = Some []"
    unfolding sortedPool_default [OF that]
    by (simp add: sort_key_sorted_wrt [OF defaultKey_le])
  show ?thesis
    unfolding Let_def
    using ex1 ex2 ord allocateToModule_spec(1-4) [of pool request] by blast
qed

text \<open>
  The general part at the scenario: the order is \<open>[n1, home]\<close>, the greedy takes are 50 and
  70 with the total 120, and the servers are left with 0 and 30.
\<close>

theorem default_order_greedy_witness:
  "preferredServers (exRequest ''m1'' 10 40 120 None) = None
   \<and> distinct (map hostname [exServer ''home'' 100 True, exServer ''n1'' 50 False])
   \<and> map ((!) [exServer ''home'' 100 True, exServer ''n1'' 50 False])
        (sortedPool (exRequest ''m1'' 10 40 120 None) [exServer ''home'' 100 True, exServer ''n1'' 50 False])
       = [exServer ''n1'' 50 False, exServer ''home'' 100 True]
   \<and> fst (allocateToModule (exRequest ''m1'' 10 40 120 None)
              [exServer ''home'' 100 True, exServer ''n1'' 50 False])
       = Some \<lparr>allocModuleName = ''m1'', allocatedRam = 120,
                serverAllocations = [(''n1'', 50), (''home'', 70)]\<rparr>
   \<and> spec_greedy 120 0 [50, 100] = ([50, 70], 120)
   \<and> filter (\<lambda>(h, v). 0 < v \<and> h \<noteq> ''__proto__'') (zip [''n1'', ''home''] (fst (spec_greedy 120 0 [50, 100])))
       = [(''n1'', 50), (''home'', 70)]
   \<and> map2 spec_remaining [50, 100] (fst (spec_greedy 120 0 [50, 100])) = [0, 30]
   \<and> map availableRam
         (map ((!) (snd (allocateToModule (exRequest ''m1'' 10 40 120 None)
                           [exServer ''home'' 100 True, exServer ''n1'' 50 False])))
            (sortedPool (exRequest ''m1'' 10 40 120 None)
               [exServer ''home'' 100 True, exServer ''n1'' 50 False]))
       = map2 spec_remaining [50, 100] (fst (spec_greedy 120 0 [50, 100]))"
proof -
  let ?r = "exRequest ''m1'' 10 40 120 None"
  let ?pool = "[exServer ''home'' 100 True, exServer ''n1'' 50 False]"
  let ?a = "\<lparr>allocModuleName = ''m1'', allocatedRam = 120,
                serverAllocations = [(''n1'', 50), (''home'', 70)]\<rparr>"
  let ?pool' = "[(exServer ''home'' 100 True)\<lparr>availableRam := 30\<rparr>,
                 (exServer ''n1'' 50 False)\<lparr>availableRam := 0\<rparr>]"
  have h1: "preferredServers ?r = None" by (simp add: exRequest_def)
  have h2: "distinct (map hostname ?pool)" by (simp add: exServer_def)
  from default_order_greedy [of ?r ?pool]
  have h3: "allocateToModule ?r ?pool = (Some ?a, ?pool')" by blast
  have o: "map ((!) ?pool) (sortedPool ?r ?pool) = [exServer ''n1'' 50 False, exServer ''home'' 100 True]"
    by code_simp
  have g: "spec_greedy 120 0 [50, 100] = ([50, 70], 120)"
    by (simp add: spec_take_def Let_def fl_def binade_def roundEven_def pow2_def bitLength.simps)
  have mx: "maxRam ?r = 120" by (simp add: exRequest_def)
  from default_order_greedy [of ?r ?pool] h1 h2 h3
  have "map availableRam (map ((!) ?pool') (sortedPool ?r ?pool))
          = map2 spec_remaining (map availableRam (map ((!) ?pool) (sortedPool ?r ?pool)))
              (fst (spec_greedy (maxRam ?r) 0 (map availableRam (map ((!) ?pool) (sortedPool ?r ?pool)))))"
    unfolding Let_def by blast
  then have p: "map availableRam (map ((!) (snd (allocateToModule ?r ?pool))) (sortedPool ?r ?pool))
          = map2 spec_remaining [50, 100] (fst (spec_greedy 120 0 [50, 100]))"
    unfolding o mx h3 snd_conv by (simp add: exServer_def)
  have f: "filter (\<lambda>(h, v). 0 < v \<and> h \<noteq> ''__proto__'') (zip [''n1'', ''home''] (fst (spec_greedy 120 0 [50, 100])))
       = [(''n1'', 50), (''home'', 70)]"
    unfolding g by simp
  have r: "map2 spec_remaining [50, 100] (fst (spec_greedy 120 0 [50, 100])) = [0, 30]"
    unfolding g
    by (simp add: spec_remaining_def fl_def binade_def roundEven_def pow2_def bitLength.simps)
  have h4: "fst (allocateToModule ?r ?pool) = Some ?a" unfolding h3 by simp
  show ?thesis
    by (intro conjI) (rule h1 h2 o h4 g f r p)+
qed

text \<open>
  C6, as stated, fails: within the two groups the servers do not keep their relative order
  from the working pool. The pool \<open>[home, n1, n2]\<close> with \<open>n2\<close> preferred is ordered
  \<open>[n2, n1, home]\<close> by the code; preferred first with pool order kept would be
  \<open>[n2, home, n1]\<close>.
\<close>

theorem preferred_order_counterexample:
  "map ((!) [exServer ''home'' 100 True, exServer ''n1'' 50 False, exServer ''n2'' 20 False])
     (sortedPool (exRequest ''m1'' 10 40 120 (Some [''n2'']))
        [exServer ''home'' 100 True, exServer ''n1'' 50 False, exServer ''n2'' 20 False])
     = [exServer ''n2'' 20 False, exServer ''n1'' 50 False, exServer ''home'' 100 True]
   \<and> spec_preferredOrder [''n2'']
        [exServer ''home'' 100 True, exServer ''n1'' 50 False, exServer ''n2'' 20 False]
     = [exServer ''n2'' 20 False, exServer ''home'' 100 True, exServer ''n1'' 50 False]
   \<and> map ((!) [exServer ''home'' 100 True, exServer ''n1'' 50 False, exServer ''n2'' 20 False])
        (sortedPool (exRequest ''m1'' 10 40 120 (Some [''n2'']))
           [exServer ''home'' 100 True, exServer ''n1'' 50 False, exServer ''n2'' 20 False])
     \<noteq> spec_preferredOrder [''n2'']
          [exServer ''home'' 100 True, exServer ''n1'' 50 False, exServer ''n2'' 20 False]"
proof -
  let ?pool = "[exServer ''home'' 100 True, exServer ''n1'' 50 False, exServer ''n2'' 20 False]"
  have a: "map ((!) ?pool) (sortedPool (exRequest ''m1'' 10 40 120 (Some [''n2''])) ?pool)
     = [exServer ''n2'' 20 False, exServer ''n1'' 50 False, exServer ''home'' 100 True]"
    by code_simp
  have b: "spec_preferredOrder [''n2''] ?pool
     = [exServer ''n2'' 20 False, exServer ''home'' 100 True, exServer ''n1'' 50 False]"
    by (simp add: spec_preferredOrder_def exServer_def)
  have "[exServer ''n2'' 20 False, exServer ''n1'' 50 False, exServer ''home'' 100 True]
      \<noteq> [exServer ''n2'' 20 False, exServer ''home'' 100 True, exServer ''n1'' 50 False]"
    by (simp add: exServer_def)
  with a b show ?thesis by simp
qed

text \<open>
  C6, amended. With a non-empty \<open>preferredServers\<close> list the node order is a rearrangement
  of the working pool with all preferred servers first; within each of the two groups no
  home server precedes another server and, among servers of the same kind, available RAM
  descends; only servers that agree on all three keys keep their relative pool order.
\<close>

theorem preferred_order:
  assumes "preferredServers request = Some prefs" and "prefs \<noteq> []"
  shows "let order = map ((!) pool) (sortedPool request pool)
         in mset order = mset pool
            \<and> sorted_wrt (\<lambda>a b.
                  (hostname b \<in> set prefs \<longrightarrow> hostname a \<in> set prefs)
                  \<and> ((hostname a \<in> set prefs) = (hostname b \<in> set prefs) \<longrightarrow>
                       (isHome a \<longrightarrow> isHome b)
                       \<and> (isHome a = isHome b \<longrightarrow> availableRam b \<le> availableRam a))) order
            \<and> (\<forall>k. filter (\<lambda>s. preferredKey prefs s = k) order
                      = filter (\<lambda>s. preferredKey prefs s = k) pool)"
  unfolding Let_def sortedPool_preferred [OF assms]
  by (simp add: sort_key_sorted_wrt [OF preferredKey_le] sort_key_stable)

text \<open>
  The pool of the counterexample, ordered as the amended claim says.
\<close>

theorem preferred_order_witness:
  "preferredServers (exRequest ''m1'' 10 40 120 (Some [''n2''])) = Some [''n2'']
   \<and> [''n2''] \<noteq> []
   \<and> map ((!) [exServer ''home'' 100 True, exServer ''n1'' 50 False, exServer ''n2'' 20 False])
        (sortedPool (exRequest ''m1'' 10 40 120 (Some [''n2'']))
           [exServer ''home'' 100 True, exServer ''n1'' 50 False, exServer ''n2'' 20 False])
       = [exServer ''n2'' 20 False, exServer ''n1'' 50 False, exServer ''home'' 100 True]
   \<and> sorted_wrt (\<lambda>a b.
          (hostname b \<in> set [''n2''] \<longrightarrow> hostname a \<in> set [''n2''])
          \<and> ((hostname a \<in> set [''n2'']) = (hostname b \<in> set [''n2'']) \<longrightarrow>
               (isHome a \<longrightarrow> isHome b)
               \<and> (isHome a = isHome b \<longrightarrow> availableRam b \<le> availableRam a)))
        [exServer ''n2'' 20 False, exServer ''n1'' 50 False, exServer ''home'' 100 True]"
proof -
  let ?r = "exRequest ''m1'' 10 40 120 (Some [''n2''])"
  let ?pool = "[exServer ''home'' 100 True, exServer ''n1'' 50 False, exServer ''n2'' 20 False]"
  have h1: "preferredServers ?r = Some [''n2'']" by (simp add: exRequest_def)
  have h2: "[''n2''] \<noteq> []" by simp
  have o: "map ((!) ?pool) (sortedPool ?r ?pool)
       = [exServer ''n2'' 20 False, exServer ''n1'' 50 False, exServer ''home'' 100 True]"
    by code_simp
  from preferred_order [OF h1 h2, of ?pool] h1 h2 o show ?thesis
    unfolding Let_def o by blast
qed

section \<open>The registry's, the network's and the ports' claims\<close>

text \<open>
  C7 fails in the code. Registering the name \<open>__proto__\<close> twice, with different arguments,
  where there is no registry file: both calls return true, and no record is stored under
  that name, nor under any other; the file that the calls wrote holds an empty table. The
  write \<open>registry.modules[name] = module\<close> has replaced the prototype of the table each
  time. Another name, registered in the same store, is stored with the arguments of the
  call and in state \<open>stopped\<close>.
\<close>

theorem register_proto_not_stored:
  "fst protoOnce \<and> fst protoTwice
   \<and> modules (loadRegistry (snd protoTwice)) ''__proto__'' = None
   \<and> modules (loadRegistry (snd protoTwice)) = Map.empty
   \<and> registryFile (snd protoTwice) = Some \<lparr>modules = Map.empty, lastUpdate = 200\<rparr>
   \<and> modules (loadRegistry (snd (registerModule freshStore ''xp-farmer'' ''/modules/a.ts''
                                      (Some (exConfig 4)) 50 1 2))) ''xp-farmer''
       = Some \<lparr>name = ''xp-farmer'', scriptPath = ''/modules/a.ts'', config = exConfig 4,
                modulePriority = 50, status = Stopped, pid = None, controlPort = 1,
                statusPort = 2, lastStatusUpdate = 200,
                ramAllocation = \<lparr>requested = 4, allocated = 0, actual = 0\<rparr>\<rparr>"
  by (simp add: protoOnce_def protoTwice_def registerModule_def loadRegistry_def readState_def
        saveRegistry_def objSet_def freshStore_def Let_def requestedRam_def exConfig_def)

text \<open>
  C10. Registering a name that has a record in the registry, with a write that succeeds,
  returns true and replaces the record: whatever the record was, the record under the name
  is now the one built from the arguments of the call, with status \<open>stopped\<close>, no pid, and
  0 allocated and actual RAM; the records under all other names stay as they were.
\<close>

theorem reregister_replaces_record:
  assumes "modules (loadRegistry ns) n = Some old" and "\<not> writeFails ns"
  shows "fst (registerModule ns n path (Some c) prio cPort sPort)
         \<and> modules (loadRegistry (snd (registerModule ns n path (Some c) prio cPort sPort))) n
             = Some \<lparr>name = n, scriptPath = path, config = c, modulePriority = prio,
                      status = Stopped, pid = None, controlPort = cPort, statusPort = sPort,
                      lastStatusUpdate = clock ns,
                      ramAllocation = \<lparr>requested = requestedRam c, allocated = 0, actual = 0\<rparr>\<rparr>
         \<and> (\<forall>m. m \<noteq> n \<longrightarrow>
                modules (loadRegistry (snd (registerModule ns n path (Some c) prio cPort sPort))) m
                  = modules (loadRegistry ns) m)"
  using assms
  by (simp add: registerModule_def loadRegistry_def readState_def saveRegistry_def objSet_def Let_def)

text \<open>
  A running module with pid 7 and 64 GB allocated is registered again, with another
  script, configuration, priority and ports.
\<close>

theorem reregister_replaces_record_witness:
  "modules (loadRegistry exStore) ''xp-farmer'' = Some exModule
   \<and> status exModule = Running \<and> pid exModule = Some 7
   \<and> allocated (ramAllocation exModule) = 64 \<and> actual (ramAllocation exModule) = 60
   \<and> \<not> writeFails exStore
   \<and> fst (registerModule exStore ''xp-farmer'' ''/modules/xp2.ts'' (Some (exConfig 8)) 90 3 4)
   \<and> modules (loadRegistry (snd (registerModule exStore ''xp-farmer'' ''/modules/xp2.ts''
                                      (Some (exConfig 8)) 90 3 4))) ''xp-farmer''
       = Some \<lparr>name = ''xp-farmer'', scriptPath = ''/modules/xp2.ts'', config = exConfig 8,
                modulePriority = 90, status = Stopped, pid = None, controlPort = 3,
                statusPort = 4, lastStatusUpdate = 200,
                ramAllocation = \<lparr>requested = 8, allocated = 0, actual = 0\<rparr>\<rparr>
   \<and> modules (loadRegistry (snd (registerModule exStore ''xp-farmer'' ''/modules/xp2.ts''
                                      (Some (exConfig 8)) 90 3 4))) ''hacker''
       = modules (loadRegistry exStore) ''hacker''"
proof -
  have h1: "modules (loadRegistry exStore) ''xp-farmer'' = Some exModule"
    by (simp add: loadRegistry_def readState_def exStore_def)
  have h2: "\<not> writeFails exStore" by (simp add: exStore_def)
  have m: "status exModule = Running" "pid exModule = Some 7"
      "allocated (ramAllocation exModule) = 64" "actual (ramAllocation exModule) = 60"
    by (simp_all add: exModule_def)
  have c: "clock exStore = 200" "requestedRam (exConfig 8) = 8"
    by (simp_all add: exStore_def requestedRam_def exConfig_def)
  have ne: "''hacker'' \<noteq> ''xp-farmer''" by simp
  from reregister_replaces_record [OF h1 h2, of "''/modules/xp2.ts''" "exConfig 8" 90 3 4] ne
  have r: "fst (registerModule exStore ''xp-farmer'' ''/modules/xp2.ts'' (Some (exConfig 8)) 90 3 4)"
      "modules (loadRegistry (snd (registerModule exStore ''xp-farmer'' ''/modules/xp2.ts''
                                      (Some (exConfig 8)) 90 3 4))) ''xp-farmer''
       = Some \<lparr>name = ''xp-farmer'', scriptPath = ''/modules/xp2.ts'', config = exConfig 8,
                modulePriority = 90, status = Stopped, pid = None, controlPort = 3,
                statusPort = 4, lastStatusUpdate = 200,
                ramAllocation = \<lparr>requested = 8, allocated = 0, actual = 0\<rparr>\<rparr>"
      "modules (loadRegistry (snd (registerModule exStore ''xp-farmer'' ''/modules/xp2.ts''
                                      (Some (exConfig 8)) 90 3 4))) ''hacker''
       = modules (loadRegistry exStore) ''hacker''"
    unfolding c by simp_all
  show ?thesis
    by (intro conjI) (rule h1 h2 m r)+
qed

text \<open>
  C8. On a finite network that is closed under \<open>ns.scan\<close> and holds \<open>home\<close>, the scan
  returns, each once, the servers that can be reached from \<open>home\<close>, and
  \<open>detectNetworkChanges\<close> returns with it: without a previous state it reports
  every current server and every currently rooted server; against a previous state it
  reports the current servers that are not in \<open>allServers\<close> and the currently rooted ones
  that are not in \<open>rootedServers\<close>, in the order of the scan.
\<close>

theorem change_detection:
  assumes "finite V" and "''home'' \<in> V" and "\<forall>h\<in>V. set (scan g h) \<subseteq> V"
  shows "\<exists>cur. scanEntireNetwork g = Some cur \<and> distinct cur
           \<and> set cur = {(a, b). b \<in> set (scan g a)}\<^sup>* `` {''home''}
           \<and> detectNetworkChanges g None
               = Some \<lparr>newServers = cur, newlyRooted = filter (hasRootAccess g) cur,
                        newlyPurchased = filter (purchasedByPlayer g) cur, leveledUp = False,
                        totalChanges = length cur\<rparr>
           \<and> (\<exists>ch. detectNetworkChanges g (Some old) = Some ch
                  \<and> newServers ch = filter (\<lambda>h. h \<notin> set (allServers old)) cur
                  \<and> newlyRooted ch
                      = filter (\<lambda>h. h \<notin> set (rootedServers old)) (filter (hasRootAccess g) cur)
                  \<and> set (newServers ch) = set cur - set (allServers old)
                  \<and> set (newlyRooted ch)
                      = {h \<in> set cur. hasRootAccess g h} - set (rootedServers old))"
proof -
  from scanEntireNetwork_returns [OF assms]
  obtain cur where cur: "scanEntireNetwork g = Some cur" "distinct cur"
      "set cur = {(a, b). b \<in> set (scan g a)}\<^sup>* `` {''home''}"
    by blast
  define newS where "newS = filter (\<lambda>h. h \<notin> set (allServers old)) cur"
  define newR where
    "newR = filter (\<lambda>h. h \<notin> set (rootedServers old)) (filter (hasRootAccess g) cur)"
  define newP where
    "newP = filter (\<lambda>h. h \<notin> set (purchasedServers old)) (filter (purchasedByPlayer g) cur)"
  define lvl where "lvl \<longleftrightarrow> length (filter (isHackable g) cur) > length (hackableServers old)"
  define ch where
    "ch = \<lparr>newServers = newS, newlyRooted = newR, newlyPurchased = newP, leveledUp = lvl,
           totalChanges = length newS + length newR + length newP + (if lvl then 1 else 0)\<rparr>"
  have first: "detectNetworkChanges g None
          = Some \<lparr>newServers = cur, newlyRooted = filter (hasRootAccess g) cur,
                   newlyPurchased = filter (purchasedByPlayer g) cur, leveledUp = False,
                   totalChanges = length cur\<rparr>"
    by (simp add: detectNetworkChanges_def getPurchasedServers_def cur(1) Let_def)
  have later: "detectNetworkChanges g (Some old) = Some ch"
    by (simp add: detectNetworkChanges_def getPurchasedServers_def getHackableServers_def
          cur(1) Let_def ch_def newS_def newR_def newP_def lvl_def)
  have f1: "newServers ch = filter (\<lambda>h. h \<notin> set (allServers old)) cur"
    by (simp add: ch_def newS_def)
  have f2: "newlyRooted ch
              = filter (\<lambda>h. h \<notin> set (rootedServers old)) (filter (hasRootAccess g) cur)"
    by (simp add: ch_def newR_def)
  have f3: "set (newServers ch) = set cur - set (allServers old)"
    unfolding f1 by auto
  have f4: "set (newlyRooted ch) = {h \<in> set cur. hasRootAccess g h} - set (rootedServers old)"
    unfolding f2 by auto
  show ?thesis
  proof (intro exI [of _ cur] conjI)
    show "\<exists>ch. detectNetworkChanges g (Some old) = Some ch
           \<and> newServers ch = filter (\<lambda>h. h \<notin> set (allServers old)) cur
           \<and> newlyRooted ch
               = filter (\<lambda>h. h \<notin> set (rootedServers old)) (filter (hasRootAccess g) cur)
           \<and> set (newServers ch) = set cur - set (allServers old)
           \<and> set (newlyRooted ch)
               = {h \<in> set cur. hasRootAccess g h} - set (rootedServers old)"
      using later f1 f2 f3 f4 by (intro exI [of _ ch] conjI)
  qed (rule cur first)+
qed

text \<open>
  The scenario of the specification with \<open>A = home\<close>, on the network \<open>{home, B, C}\<close>: before,
  servers \<open>{home, B}\<close> with \<open>{home}\<close> rooted; now \<open>{home, B, C}\<close> with \<open>{home, B}\<close> rooted.
  Reported: \<open>newServers = [C]\<close>, \<open>newlyRooted = [B]\<close>; without the previous state, all three
  servers and the two rooted ones.
\<close>

theorem change_detection_witness:
  "finite {''home'', ''B'', ''C''}
   \<and> ''home'' \<in> {''home'', ''B'', ''C''}
   \<and> set (scan exGame ''home'') \<subseteq> {''home'', ''B'', ''C''}
   \<and> set (scan exGame ''B'') \<subseteq> {''home'', ''B'', ''C''}
   \<and> set (scan exGame ''C'') \<subseteq> {''home'', ''B'', ''C''}
   \<and> scanEntireNetwork exGame = Some [''home'', ''B'', ''C'']
   \<and> set (allServers exOldState) = {''home'', ''B''}
   \<and> set (rootedServers exOldState) = {''home''}
   \<and> filter (hasRootAccess exGame) [''home'', ''B'', ''C''] = [''home'', ''B'']
   \<and> map_option newServers (detectNetworkChanges exGame (Some exOldState)) = Some [''C'']
   \<and> map_option newlyRooted (detectNetworkChanges exGame (Some exOldState)) = Some [''B'']
   \<and> map_option newServers (detectNetworkChanges exGame None) = Some [''home'', ''B'', ''C'']
   \<and> map_option newlyRooted (detectNetworkChanges exGame None) = Some [''home'', ''B'']"
proof -
  let ?V = "{''home'', ''B'', ''C''}"
  have h1: "finite ?V" by simp
  have h2: "''home'' \<in> ?V" by simp
  have h3: "\<forall>h\<in>?V. set (scan exGame h) \<subseteq> ?V" by (simp add: exGame_def)
  have s: "set (scan exGame ''home'') \<subseteq> ?V" "set (scan exGame ''B'') \<subseteq> ?V"
      "set (scan exGame ''C'') \<subseteq> ?V"
    by (simp_all add: exGame_def)
  have sc: "scanEntireNetwork exGame = Some [''home'', ''B'', ''C'']"
    by (simp add: scanEntireNetwork_def exGame_def scanLoop.simps)
  have o: "set (allServers exOldState) = {''home'', ''B''}" "set (rootedServers exOldState) = {''home''}"
    by (auto simp: exOldState_def)
  have r: "filter (hasRootAccess exGame) [''home'', ''B'', ''C''] = [''home'', ''B'']"
    by (simp add: exGame_def)
  from change_detection [OF h1 h2 h3, of exOldState]
  obtain cur ch where c: "scanEntireNetwork exGame = Some cur"
      and "distinct cur"
      and "set cur = {(a, b). b \<in> set (scan exGame a)}\<^sup>* `` {''home''}"
      and n: "detectNetworkChanges exGame None
          = Some \<lparr>newServers = cur, newlyRooted = filter (hasRootAccess exGame) cur,
                   newlyPurchased = filter (purchasedByPlayer exGame) cur,
                   leveledUp = False, totalChanges = length cur\<rparr>"
      and ch: "detectNetworkChanges exGame (Some exOldState) = Some ch"
      and ns: "newServers ch = filter (\<lambda>h. h \<notin> set (allServers exOldState)) cur"
      and nr: "newlyRooted ch = filter (\<lambda>h. h \<notin> set (rootedServers exOldState))
                                  (filter (hasRootAccess exGame) cur)"
    by (elim exE conjE)
  have cur: "cur = [''home'', ''B'', ''C'']" using c sc by simp
  have "newServers ch = [''C'']" unfolding ns cur by (simp add: exOldState_def)
  moreover have "newlyRooted ch = [''B'']" unfolding nr cur by (simp add: exOldState_def exGame_def)
  ultimately have d: "map_option newServers (detectNetworkChanges exGame (Some exOldState)) = Some [''C'']"
      "map_option newlyRooted (detectNetworkChanges exGame (Some exOldState)) = Some [''B'']"
    by (simp_all add: ch)
  have e: "map_option newServers (detectNetworkChanges exGame None) = Some [''home'', ''B'', ''C'']"
      "map_option newlyRooted (detectNetworkChanges exGame None) = Some [''home'', ''B'']"
    unfolding n cur by (simp_all add: exGame_def)
  show ?thesis
    by (intro conjI) (rule h1 h2 s sc o r d e)+
qed

text \<open>
  C9. Overwrite on full: on a valid port, \<open>sendMessage\<close> succeeds, leaves its message last
  in the queue, and when the port was full the message is the only one left. With
  capacity 1, three sends without a read in between leave exactly the third message;
  \<open>hasMessages\<close> is true after each send and false once that message has been received.
\<close>

theorem overwrite_on_full:
  assumes "port \<noteq> 0"
  shows "(1 \<le> maxQueueSize ports \<and> length (portData ports port) \<le> maxQueueSize ports \<longrightarrow>
            fst (sendMessage ports port m)
            \<and> portData (snd (sendMessage ports port m)) port
                = (if portFull ports port then [] else portData ports port)
                  @ [\<lparr>timestamp = now ports, data = m\<rparr>]
            \<and> hasMessages (snd (sendMessage ports port m)) port)
         \<and> (maxQueueSize ports = 1 \<and> length (portData ports port) \<le> 1 \<longrightarrow>
              (let p1 = snd (sendMessage (ports\<lparr>now := t1\<rparr>) port m1);
                   p2 = snd (sendMessage (p1\<lparr>now := t2\<rparr>) port m2);
                   p3 = snd (sendMessage (p2\<lparr>now := t3\<rparr>) port m3)
               in portData p3 port = [\<lparr>timestamp = t3, data = m3\<rparr>]
                  \<and> hasMessages p1 port \<and> hasMessages p2 port \<and> hasMessages p3 port
                  \<and> fst (receiveMessage p3 port) = Some m3
                  \<and> \<not> hasMessages (snd (receiveMessage p3 port)) port))"
proof -
  have one: "fst (sendMessage ports port m)
            \<and> portData (snd (sendMessage ports port m)) port
                = (if portFull ports port then [] else portData ports port)
                  @ [\<lparr>timestamp = now ports, data = m\<rparr>]
            \<and> hasMessages (snd (sendMessage ports port m)) port"
    if "1 \<le> maxQueueSize ports \<and> length (portData ports port) \<le> maxQueueSize ports"
    using that assms sendMessage_queue [of port ports m]
    by (simp add: sendMessage_fst hasMessages_def portEmpty_def)
  have three: "portData p3 port = [\<lparr>timestamp = t3, data = m3\<rparr>]
                  \<and> hasMessages p1 port \<and> hasMessages p2 port \<and> hasMessages p3 port
                  \<and> fst (receiveMessage p3 port) = Some m3
                  \<and> \<not> hasMessages (snd (receiveMessage p3 port)) port"
    if c: "maxQueueSize ports = 1 \<and> length (portData ports port) \<le> 1"
      and p1: "p1 = snd (sendMessage (ports\<lparr>now := t1\<rparr>) port m1)"
      and p2: "p2 = snd (sendMessage (p1\<lparr>now := t2\<rparr>) port m2)"
      and p3: "p3 = snd (sendMessage (p2\<lparr>now := t3\<rparr>) port m3)"
    for p1 p2 p3
  proof -
    have q1: "portData p1 port = [\<lparr>timestamp = t1, data = m1\<rparr>]"
      unfolding p1 using c assms by (simp add: sendMessage_capacity_one)
    have c1: "maxQueueSize p1 = 1" unfolding p1 using c by (simp add: sendMessage_maxQueueSize)
    have q2: "portData p2 port = [\<lparr>timestamp = t2, data = m2\<rparr>]"
      unfolding p2 using c1 q1 assms by (simp add: sendMessage_capacity_one)
    have c2: "maxQueueSize p2 = 1" unfolding p2 using c1 by (simp add: sendMessage_maxQueueSize)
    have q3: "portData p3 port = [\<lparr>timestamp = t3, data = m3\<rparr>]"
      unfolding p3 using c2 q2 assms by (simp add: sendMessage_capacity_one)
    show ?thesis
      using q1 q2 q3 assms by (simp add: hasMessages_def portEmpty_def receiveMessage_def)
  qed
  show ?thesis
    unfolding Let_def using one three by blast
qed

text \<open>
  Three control messages to port 1 of capacity 1.
\<close>

theorem overwrite_on_full_witness:
  "(1::nat) \<noteq> 0
   \<and> maxQueueSize \<lparr>maxQueueSize = 1, portData = (\<lambda>p. []), now = 0\<rparr> = 1
   \<and> length (portData \<lparr>maxQueueSize = 1, portData = (\<lambda>p. []), now = 0\<rparr> 1) \<le> 1
   \<and> (let p1 = snd (sendMessage (\<lparr>maxQueueSize = 1, portData = (\<lambda>p. []), now = 0\<rparr>\<lparr>now := 10\<rparr>) 1 ''start'');
           p2 = snd (sendMessage (p1\<lparr>now := 20\<rparr>) 1 ''pause'');
           p3 = snd (sendMessage (p2\<lparr>now := 30\<rparr>) 1 ''stop'')
       in portData p3 1 = [\<lparr>timestamp = 30, data = ''stop''\<rparr>]
          \<and> length (portData p3 1) = 1
          \<and> hasMessages p3 1
          \<and> fst (receiveMessage p3 1) = Some ''stop''
          \<and> \<not> hasMessages (snd (receiveMessage p3 1)) 1)"
proof -
  let ?ports = "\<lparr>maxQueueSize = 1, portData = (\<lambda>p. []), now = 0\<rparr> :: string Ports"
  have h1: "(1::nat) \<noteq> 0" by simp
  have h2: "maxQueueSize ?ports = 1 \<and> length (portData ?ports 1) \<le> 1" by simp
  from overwrite_on_full [OF h1, of ?ports _ 10 "''start''" 20 "''pause''" 30 "''stop''"] h2
  show ?thesis unfolding Let_def by simp
qed


end
